theory Spec2Isabelle
  imports Main "HOL-Library.Word"
begin

unbundle bit_operations_syntax

section \<open>On-disk format (disk.h)\<close>

text \<open>
  Bytes are 8-bit words. The C type \<open>int\<close> of the counters of fsck.c (the bit counters,
  the running offset of the directory walk) is a 32-bit word read as two's complement
  (\<open>sint\<close>), so that a counter that outgrows \<open>int\<close> is visible in the model. Values whose
  C declarations are in internal.h, which is not part of the sources at hand (the fields
  of the superblock descriptor and of the in-memory inode), are integers; the size of the
  in-memory inode, which fsck.c prints with \<open>%d\<close> and compares with its \<open>int\<close> counter,
  is an \<open>int\<close> as well.
\<close>

type_synonym byte = "8 word"
type_synonym cint = "32 word"

definition NUMBFS_MAX_PATH_LEN :: nat where
  "NUMBFS_MAX_PATH_LEN = 60"

definition NUMBFS_XATTR_MAXNAME :: nat where
  "NUMBFS_XATTR_MAXNAME = 16"

definition NUMBFS_XATTR_MAXVALUE :: nat where
  "NUMBFS_XATTR_MAXVALUE = 32"

text \<open>
  \<open>struct numbfs_dirent\<close>: one byte of name length, one byte of type, sixty bytes of
  name, a little-endian 16-bit inode number. The code overlays the struct on a window of
  the block buffer (\<open>(struct numbfs_dirent*)&buf[i % BYTES_PER_BLOCK]\<close>);
  \<open>dirent_at\<close> is that overlay and \<open>dirent_bytes\<close> the 64 bytes of a record.
\<close>

record numbfs_dirent =
  de_name_len :: byte
  de_type :: byte
  de_name :: "byte list"
  de_ino :: "16 word"

definition sizeof_numbfs_dirent :: nat where
  "sizeof_numbfs_dirent = 2 + NUMBFS_MAX_PATH_LEN + 2"

definition le16_to_cpu :: "byte \<Rightarrow> byte \<Rightarrow> 16 word" where
  "le16_to_cpu lo hi = push_bit 8 (ucast hi) OR ucast lo"

definition cpu_to_le16 :: "16 word \<Rightarrow> byte list" where
  "cpu_to_le16 w = [ucast w, ucast (drop_bit 8 w)]"

definition dirent_at :: "byte list \<Rightarrow> nat \<Rightarrow> numbfs_dirent" where
  "dirent_at buf off =
     \<lparr> de_name_len = buf ! off,
       de_type = buf ! (off + 1),
       de_name = take NUMBFS_MAX_PATH_LEN (drop (off + 2) buf),
       de_ino = le16_to_cpu (buf ! (off + 62)) (buf ! (off + 63)) \<rparr>"

definition dirent_bytes :: "numbfs_dirent \<Rightarrow> byte list" where
  "dirent_bytes de = [de_name_len de, de_type de] @ de_name de @ cpu_to_le16 (de_ino de)"

text \<open>
  \<open>struct numbfs_timestamps\<close>: three little-endian 64-bit times at the start of the
  attribute block, then eight reserved bytes.
\<close>

record numbfs_timestamps =
  t_atime :: "64 word"
  t_mtime :: "64 word"
  t_ctime :: "64 word"

definition sizeof_numbfs_timestamps :: nat where
  "sizeof_numbfs_timestamps = 32"

definition le64_to_cpu :: "byte list \<Rightarrow> 64 word" where
  "le64_to_cpu bs = foldr (\<lambda>b w. push_bit 8 w OR ucast b) bs 0"

definition timestamps_at :: "byte list \<Rightarrow> numbfs_timestamps" where
  "timestamps_at buf =
     \<lparr> t_atime = le64_to_cpu (take 8 buf),
       t_mtime = le64_to_cpu (take 8 (drop 8 buf)),
       t_ctime = le64_to_cpu (take 8 (drop 16 buf)) \<rparr>"

text \<open>
  \<open>struct numbfs_xattr_entry\<close>: four bytes of header, sixteen of name, thirty-two of
  value; every member is a byte, so the record is 52 bytes on every target.
\<close>

record numbfs_xattr_entry =
  e_valid :: byte
  e_type :: byte
  e_nlen :: byte
  e_vlen :: byte
  e_name :: "byte list"
  e_value :: "byte list"

definition sizeof_numbfs_xattr_entry :: nat where
  "sizeof_numbfs_xattr_entry = 4 + NUMBFS_XATTR_MAXNAME + NUMBFS_XATTR_MAXVALUE"

definition NUMBFS_XATTR_ENTRY_START :: nat where
  "NUMBFS_XATTR_ENTRY_START = sizeof_numbfs_timestamps"

definition NUMBFS_XATTR_MAX_ENTRY :: "nat \<Rightarrow> nat" where
  "NUMBFS_XATTR_MAX_ENTRY bpb = (bpb - sizeof_numbfs_timestamps) div sizeof_numbfs_xattr_entry"

definition xattr_entry_at :: "byte list \<Rightarrow> nat \<Rightarrow> numbfs_xattr_entry" where
  "xattr_entry_at buf off =
     \<lparr> e_valid = buf ! off,
       e_type = buf ! (off + 1),
       e_nlen = buf ! (off + 2),
       e_vlen = buf ! (off + 3),
       e_name = take NUMBFS_XATTR_MAXNAME (drop (off + 4) buf),
       e_value = take NUMBFS_XATTR_MAXVALUE (drop (off + 4 + NUMBFS_XATTR_MAXNAME) buf) \<rparr>"

definition xattr_entry_bytes :: "numbfs_xattr_entry \<Rightarrow> byte list" where
  "xattr_entry_bytes xe = [e_valid xe, e_type xe, e_nlen xe, e_vlen xe] @ e_name xe @ e_value xe"

section \<open>Bitmap counting (fsck.c, count_bit and numbfs_fsck_used)\<close>

text \<open>
  \<open>count_bit\<close>: eight rounds of \<open>ret += (byte & 1); byte >>= 1\<close>.
  \<open>numbfs_fsck_used\<close>: the sum of \<open>count_bit (buf[i])\<close> over the \<open>BYTES_PER_BLOCK\<close>
  bytes of a block. \<open>BYTES_PER_BLOCK\<close> is a macro of utils.h, which is not part of the
  sources at hand: the block size is the parameter \<open>bpb\<close>.
\<close>

function count_bit_loop :: "nat \<Rightarrow> byte \<Rightarrow> cint \<Rightarrow> cint" where
  "count_bit_loop i byte ret =
     (if i < 8 then count_bit_loop (i + 1) (drop_bit 1 byte) (ret + ucast (byte AND 1))
      else ret)"
  by pat_completeness auto
termination
  by (relation "measure (\<lambda>(i, byte, ret). 8 - i)") auto

declare count_bit_loop.simps [simp del]

definition count_bit :: "byte \<Rightarrow> cint" where
  "count_bit byte = count_bit_loop 0 byte 0"

function fsck_used_loop :: "nat \<Rightarrow> nat \<Rightarrow> byte list \<Rightarrow> cint \<Rightarrow> cint" where
  "fsck_used_loop bpb i buf ret =
     (if i < bpb then fsck_used_loop bpb (i + 1) buf (ret + count_bit (buf ! i)) else ret)"
  by pat_completeness auto
termination
  by (relation "measure (\<lambda>(bpb, i, buf, ret). bpb - i)") auto

declare fsck_used_loop.simps [simp del]

definition numbfs_fsck_used :: "nat \<Rightarrow> byte list \<Rightarrow> cint" where
  "numbfs_fsck_used bpb buf = fsck_used_loop bpb 0 buf 0"

text \<open>
  The device is the sequence of its bytes. \<open>pread\<close> is the system call on it: the bytes
  from \<open>off\<close>, at most \<open>count\<close> of them, with their number; a negative offset fails
  with -1.
\<close>

type_synonym device = "byte list"

definition pread :: "device \<Rightarrow> nat \<Rightarrow> int \<Rightarrow> int \<times> byte list" where
  "pread d count off =
     (if off < 0 then (- 1, [])
      else (let data = take count (drop (nat off) d) in (int (length data), data)))"

text \<open>
  The product of two values of the C type \<open>int\<close> as an \<open>int\<close> holds it: the low 32 bits
  of the product, read as two's complement.
\<close>

definition int_mul :: "int \<Rightarrow> int \<Rightarrow> int" where
  "int_mul a b = sint (word_of_int a * word_of_int b :: cint)"

text \<open>
  The loop of a bitmap zone in \<open>numbfs_fsck\<close>: blocks \<open>i\<close> from the zone's start up to
  the next zone's start, each read with \<open>pread\<close> at \<open>i * BYTES_PER_BLOCK\<close> and added to
  \<open>cnt\<close>. The offset is the product of two \<open>int\<close>s (\<open>int_mul\<close>): from byte \<open>2^31\<close>
  of the device on it is not the block's offset any more, and where it is negative the read
  fails. \<open>Inl i\<close> is the failed or short read of block \<open>i\<close>, \<open>Inr cnt\<close> the count.
\<close>

function zone_loop :: "nat \<Rightarrow> device \<Rightarrow> int \<Rightarrow> int \<Rightarrow> cint \<Rightarrow> int + cint" where
  "zone_loop bpb d i stop cnt =
     (if i < stop then
        (if fst (pread d bpb (int_mul i (int bpb))) \<noteq> int bpb then Inl i
         else zone_loop bpb d (i + 1) stop
                (cnt + numbfs_fsck_used bpb (snd (pread d bpb (int_mul i (int bpb))))))
      else Inr cnt)"
  by pat_completeness auto
termination
  by (relation "measure (\<lambda>(bpb, d, i, stop, cnt). nat (stop - i))") auto

declare zone_loop.simps [simp del]

section \<open>Output\<close>

text \<open>
  The output of a run is the sequence of the \<open>printf\<close> and \<open>fprintf (stderr, ...)\<close>
  calls of fsck.c, each with its format string and the values of its arguments. What a
  macro of utils.h writes on its own (\<open>BUG_ON\<close>, when it halts the process) is not part
  of it. The arguments: \<open>D\<close> an integer
  (for \<open>%d\<close>), \<open>T\<close> a string literal of the program, \<open>S\<close> the bytes that \<open>%s\<close> prints
  from a buffer (those before the first NUL), \<open>Sover\<close> a \<open>%s\<close> whose buffer holds no
  NUL (its bytes are printed and the read runs on past the buffer), \<open>Pct c t\<close> the double
  \<open>100.0 * c / t\<close>.
\<close>

datatype arg = D int | T string | S "byte list" | Sover "byte list" | Pct int int

datatype event = Out string "arg list" | Err string "arg list"

definition cstring :: "byte list \<Rightarrow> arg" where
  "cstring mem = (if 0 \<in> set mem then S (takeWhile (\<lambda>b. b \<noteq> 0) mem) else Sover mem)"

section \<open>The collaborators (internal.h, utils.h, libc)\<close>

text \<open>
  \<open>struct numbfs_superblock_info\<close> and \<open>struct numbfs_inode_info\<close> are declared in
  internal.h; the records hold the fields fsck.c reads.
\<close>

record numbfs_superblock_info =
  ibitmap_start :: int
  inode_start :: int
  bbitmap_start :: int
  data_start :: int
  free_inodes :: int
  total_inodes :: int
  free_blocks :: int
  data_blocks :: int

record numbfs_inode_info =
  ni_sbi :: numbfs_superblock_info
  ni_nid :: int
  ni_mode :: "32 word"
  ni_nlink :: int
  ni_uid :: int
  ni_gid :: int
  ni_size :: cint
  ni_xattr_start :: int
  ni_xattr_count :: int

text \<open>
  The functions fsck.c calls and does not define are parameters, gathered in one record.
  Each of those that is handed the device may change it: it takes the device and returns
  it with its result. A function that fills a buffer of \<open>BYTES_PER_BLOCK\<close> bytes returns
  the buffer's contents with its error code (0 for success).
  \<^item> \<open>BYTES_PER_BLOCK\<close>: the macro of utils.h.
  \<^item> \<open>malloc_ok\<close>, \<open>strdup_ok\<close>: whether the allocation of the run succeeds.
  \<^item> \<open>sys_open\<close>: \<open>open (path, O_RDWR, 0644)\<close>; \<open>Some errno\<close> when it fails. With
    these flags \<open>open\<close> neither creates nor truncates.
  \<^item> \<open>localtime_strftime\<close>: the text \<open>strftime\<close> makes of \<open>localtime\<close> of a time with
    the format \<open>%Y-%m-%d %H:%M:%S\<close>; \<open>None\<close> when \<open>localtime\<close> returns NULL.
\<close>

record env =
  BYTES_PER_BLOCK :: nat
  malloc_ok :: bool
  strdup_ok :: bool
  sys_open :: "string \<Rightarrow> int option"
  numbfs_get_superblock :: "device \<Rightarrow> (int \<times> numbfs_superblock_info) \<times> device"
  numbfs_get_inode ::
    "numbfs_superblock_info \<Rightarrow> int \<Rightarrow> device \<Rightarrow> (int \<times> numbfs_inode_info) \<times> device"
  numbfs_read_block ::
    "numbfs_superblock_info \<Rightarrow> int \<Rightarrow> device \<Rightarrow> (int \<times> byte list) \<times> device"
  numbfs_pread_inode ::
    "numbfs_inode_info \<Rightarrow> int \<Rightarrow> int \<Rightarrow> device \<Rightarrow> (int \<times> byte list) \<times> device"
  numbfs_data_blk :: "numbfs_superblock_info \<Rightarrow> int \<Rightarrow> int"
  localtime_strftime :: "64 word \<Rightarrow> byte list option"

definition ENOMEM :: int where
  "ENOMEM = 12"

definition EIO :: int where
  "EIO = 5"

definition DT_DIR :: int where
  "DT_DIR = 4"

definition DT_LNK :: int where
  "DT_LNK = 10"

definition S_ISDIR :: "32 word \<Rightarrow> bool" where
  "S_ISDIR m = (m AND 0xF000 = 0x4000)"

definition S_ISLNK :: "32 word \<Rightarrow> bool" where
  "S_ISLNK m = (m AND 0xF000 = 0xA000)"

text \<open>
  Modelled from the spec: the macro \<open>BUG_ON\<close> is defined in utils.h, which is not part
  of the sources at hand. The spec (7, Error handling) says of the bitmap audit that it
  "is implemented as a hard assertion in the reference tool - it halts the process".
  \<open>BUG_ON c\<close> holds when the process halts there. The spec does not say what the
  assertion writes when it halts, and the model does not either.
\<close>

definition BUG_ON :: "bool \<Rightarrow> bool" where
  "BUG_ON c = c"

section \<open>Formatting (fsck.c)\<close>

definition numbfs_dir_type :: "int \<Rightarrow> string" where
  "numbfs_dir_type t =
     (if t = DT_DIR then ''DIR    ''
      else if t = DT_LNK then ''SYMLINK''
      else ''REGULAR'')"

text \<open>
  \<open>numbfs_time_to_date\<close>: the buffer is zeroed and \<open>strftime\<close> writes the date at its
  start. \<open>None\<close>: \<open>localtime\<close> gave NULL, or the text with its NUL does not fit the
  buffer (its contents are then unspecified).
\<close>

definition numbfs_time_to_date :: "env \<Rightarrow> 64 word \<Rightarrow> byte list option" where
  "numbfs_time_to_date e t =
     (case localtime_strftime e t of
        None \<Rightarrow> None
      | Some txt \<Rightarrow>
          if length txt < BYTES_PER_BLOCK e
          then Some (txt @ replicate (BYTES_PER_BLOCK e - length txt) 0)
          else None)"

subsection \<open>numbfs_dump_xattrs\<close>

text \<open>
  One field of an attribute line: \<open>memset (field, 0, width)\<close>, the loop
  \<open>for (j = 0; j < front; j++) field[j + len] = ' '\<close> with
  \<open>front = width - len - 1\<close>, \<open>memcpy (field, src, len)\<close>, and the field printed
  with \<open>%s\<close>. \<open>None\<close>: \<open>len\<close> exceeds the field and \<open>memcpy\<close> writes past it.
\<close>

function pad_loop :: "byte list \<Rightarrow> nat \<Rightarrow> int \<Rightarrow> nat \<Rightarrow> byte list" where
  "pad_loop field len front j =
     (if int j < front then pad_loop (field[j + len := 0x20]) len front (j + 1) else field)"
  by pat_completeness auto
termination
  by (relation "measure (\<lambda>(field, len, front, j). nat (front - int j))") auto

declare pad_loop.simps [simp del]

definition memcpy :: "byte list \<Rightarrow> byte list \<Rightarrow> nat \<Rightarrow> byte list" where
  "memcpy dst src n = take n src @ drop n dst"

definition xattr_field :: "nat \<Rightarrow> byte list \<Rightarrow> nat \<Rightarrow> arg option" where
  "xattr_field width src len =
     (if width < len then None
      else Some (cstring
        (memcpy (pad_loop (replicate width 0) len (int width - int len - 1) 0) src len)))"

definition fmt_xattr :: string where
  "fmt_xattr = ''        type: %02d, name: %s, value: %s\<newline>''"

definition xattr_line :: "numbfs_xattr_entry \<Rightarrow> event option" where
  "xattr_line xe =
     (case xattr_field NUMBFS_XATTR_MAXNAME (e_name xe) (unat (e_nlen xe)) of
        None \<Rightarrow> None
      | Some name \<Rightarrow>
         (case xattr_field NUMBFS_XATTR_MAXVALUE (e_value xe) (unat (e_vlen xe)) of
            None \<Rightarrow> None
          | Some val \<Rightarrow> Some (Out fmt_xattr [D (uint (e_type xe)), name, val])))"

function xattr_loop :: "nat \<Rightarrow> byte list \<Rightarrow> nat \<Rightarrow> event list \<Rightarrow> event list option" where
  "xattr_loop bpb buf i out =
     (if i < NUMBFS_XATTR_MAX_ENTRY bpb then
        (if e_valid (xattr_entry_at buf (NUMBFS_XATTR_ENTRY_START + i * sizeof_numbfs_xattr_entry)) = 0
         then xattr_loop bpb buf (i + 1) out
         else (case xattr_line
                 (xattr_entry_at buf (NUMBFS_XATTR_ENTRY_START + i * sizeof_numbfs_xattr_entry)) of
                 None \<Rightarrow> None
               | Some ev \<Rightarrow> xattr_loop bpb buf (i + 1) (out @ [ev])))
      else Some out)"
  by pat_completeness auto
termination
  by (relation "measure (\<lambda>(bpb, buf, i, out). NUMBFS_XATTR_MAX_ENTRY bpb - i)") auto

declare xattr_loop.simps [simp del]

definition numbfs_dump_xattrs ::
  "env \<Rightarrow> numbfs_inode_info \<Rightarrow> device \<Rightarrow> (event list \<times> device) option" where
  "numbfs_dump_xattrs e ni d =
     (if ni_xattr_count ni = 0 then Some ([], d)
      else
        (case numbfs_read_block e (ni_sbi ni)
                (numbfs_data_blk e (ni_sbi ni) (ni_xattr_start ni)) d of
           ((err, buf), d') \<Rightarrow>
             if err \<noteq> 0 then Some ([Err ''error: failed to read xattr block\<newline>'' []], d')
             else if BYTES_PER_BLOCK e < sizeof_numbfs_timestamps then None
             else
               (case xattr_loop (BYTES_PER_BLOCK e) buf 0
                       [Out ''    -------\<newline>'' [],
                        Out ''    xattrs (count: %d)\<newline>'' [D (ni_xattr_count ni)]] of
                  None \<Rightarrow> None
                | Some out \<Rightarrow> Some (out @ [Out ''    -------\<newline>'' []], d'))))"

subsection \<open>The directory walk of numbfs_fsck_show_inode\<close>

definition fmt_dirent :: string where
  "fmt_dirent = ''       INODE: %05d, TYPE: %s, NAMELEN: %02d NAME: %s\<newline>''"

text \<open>
  The line of the record at \<open>off\<close> of the block buffer. \<open>dir->name\<close> is printed with
  \<open>%s\<close>: the bytes from the start of the name up to the first NUL of the buffer.
\<close>

definition dirent_line :: "byte list \<Rightarrow> nat \<Rightarrow> event" where
  "dirent_line buf off =
     Out fmt_dirent
       [D (uint (de_ino (dirent_at buf off))),
        T (numbfs_dir_type (uint (de_type (dirent_at buf off)))),
        D (uint (de_name_len (dirent_at buf off))),
        cstring (drop (off + 2) buf)]"

text \<open>
  The operators \<open>/\<close> and \<open>%\<close> of C on \<open>int\<close>: the quotient is truncated towards zero
  and the remainder has the sign of the dividend.
\<close>

definition c_div :: "int \<Rightarrow> int \<Rightarrow> int" where
  "c_div a b = sgn a * sgn b * (\<bar>a\<bar> div \<bar>b\<bar>)"

definition c_mod :: "int \<Rightarrow> int \<Rightarrow> int" where
  "c_mod a b = a - b * c_div a b"

text \<open>
  \<open>for (i = 0; i < ni->size; i += sizeof (struct numbfs_dirent))\<close>: a block is read
  with \<open>numbfs_pread_inode\<close> whenever \<open>i\<close> is a multiple of the block size, the record at
  \<open>i % BYTES_PER_BLOCK\<close> of the buffer is printed. \<open>i\<close> is an \<open>int\<close>: the step from
  2147483584 wraps to \<open>-2^31\<close>, and the loop goes on from there. With a size no multiple of
  64 reaches the loop need not end, so its result is an option: \<open>Some\<close> of the error code,
  the output and the device when it returns, \<open>None\<close> when it does not return, or when a
  negative \<open>i % BYTES_PER_BLOCK\<close> sends the record's window before the buffer.
\<close>

partial_function (option) dir_loop ::
  "env \<Rightarrow> numbfs_inode_info \<Rightarrow> int \<Rightarrow> cint \<Rightarrow> byte list \<Rightarrow> device \<Rightarrow> event list
     \<Rightarrow> (int \<times> event list \<times> device) option" where
  "dir_loop e ni nid i buf d out =
     (if sint i < sint (ni_size ni) then
        (if c_mod (sint i) (int (BYTES_PER_BLOCK e)) = 0 then
           (case numbfs_pread_inode e ni (sint i) (int (BYTES_PER_BLOCK e)) d of
              ((err, buf'), d') \<Rightarrow>
                if err \<noteq> 0
                then Some (err,
                      out @ [Err ''error: failed to read block@%d of inode@%d\<newline>''
                               [D (c_div (sint i) (int (BYTES_PER_BLOCK e))), D nid]],
                      d')
                else dir_loop e ni nid (i + word_of_nat sizeof_numbfs_dirent) buf' d'
                       (out @ [dirent_line buf' (nat (c_mod (sint i) (int (BYTES_PER_BLOCK e))))]))
         else if c_mod (sint i) (int (BYTES_PER_BLOCK e)) < 0 then None
         else dir_loop e ni nid (i + word_of_nat sizeof_numbfs_dirent) buf d
                (out @ [dirent_line buf (nat (c_mod (sint i) (int (BYTES_PER_BLOCK e))))]))
      else Some (0, out, d))"

subsection \<open>numbfs_fsck_show_inode\<close>

text \<open>
  The report of an inode once its record and its attribute block are read: the
  timestamps are the first 32 bytes of the block; the three dates are written into the
  same buffer one after the other; the attributes follow, then the directory's records
  when the inode is a directory. \<open>None\<close>: the block is shorter than the timestamps, or
  a callee has no defined result or does not return.
\<close>

definition inode_type_line :: "32 word \<Rightarrow> event" where
  "inode_type_line m =
     (if S_ISDIR m then Out ''    inode type:                 DIR\<newline>'' []
      else if S_ISLNK m then Out ''    inode type:                 SYMLINK\<newline>'' []
      else Out ''    inode type:                 REGULAR FILE\<newline>'' [])"

definition show_inode_report ::
  "env \<Rightarrow> numbfs_inode_info \<Rightarrow> int \<Rightarrow> byte list \<Rightarrow> device
     \<Rightarrow> (int \<times> event list \<times> device) option" where
  "show_inode_report e ni nid buf d =
     (if BYTES_PER_BLOCK e < sizeof_numbfs_timestamps then None
      else
        (case numbfs_time_to_date e (t_atime (timestamps_at buf)) of
           None \<Rightarrow> None
         | Some abuf \<Rightarrow>
        (case numbfs_time_to_date e (t_mtime (timestamps_at buf)) of
           None \<Rightarrow> None
         | Some mbuf \<Rightarrow>
        (case numbfs_time_to_date e (t_ctime (timestamps_at buf)) of
           None \<Rightarrow> None
         | Some cbuf \<Rightarrow>
        (case numbfs_dump_xattrs e ni d of
           None \<Rightarrow> None
         | Some (xout, d') \<Rightarrow>
            (let out =
               [Out ''================================\<newline>'' [],
                Out ''Inode Information\<newline>'' [],
                Out ''    inode number:               %d\<newline>'' [D nid],
                inode_type_line (ni_mode ni),
                Out ''    link count:                 %d\<newline>'' [D (ni_nlink ni)],
                Out ''    inode uid:                  %d\<newline>'' [D (ni_uid ni)],
                Out ''    inode gid:                  %d\<newline>'' [D (ni_gid ni)],
                Out ''    inode atime:                %s\<newline>'' [cstring abuf],
                Out ''    inode mtime:                %s\<newline>'' [cstring mbuf],
                Out ''    inode ctime:                %s\<newline>'' [cstring cbuf],
                Out ''    inode size:                 %d\<newline>'' [D (sint (ni_size ni))]]
               @ xout @ [Out ''\<newline>'' []]
             in if S_ISDIR (ni_mode ni)
                then dir_loop e ni nid 0 cbuf d' (out @ [Out ''    DIR CONTENT\<newline>'' []])
                else Some (0, out, d')))))))"

text \<open>
  \<open>numbfs_fsck_show_inode\<close>: the allocation, the inode record, the attribute block, each
  with its early exit, then the report.
\<close>

definition numbfs_fsck_show_inode ::
  "env \<Rightarrow> numbfs_superblock_info \<Rightarrow> int \<Rightarrow> device \<Rightarrow> (int \<times> event list \<times> device) option" where
  "numbfs_fsck_show_inode e sbi nid d =
     (if \<not> malloc_ok e then Some (- ENOMEM, [], d)
      else
        (case numbfs_get_inode e sbi nid d of
           ((err, ni), d1) \<Rightarrow>
             if err \<noteq> 0
             then Some (err, [Err ''error: failed to get inode information\<newline>'' []], d1)
             else
               (case numbfs_read_block e sbi (numbfs_data_blk e sbi (ni_xattr_start ni)) d1 of
                  ((err', buf), d2) \<Rightarrow>
                    if err' \<noteq> 0
                    then Some (err', [Err ''error: failed to read xattr block\<newline>'' []], d2)
                    else show_inode_report e ni nid buf d2)))"

section \<open>The driver (fsck.c, numbfs_fsck and main)\<close>

record numbfs_fsck_cfg =
  show_inodes :: bool
  show_blocks :: bool
  cfg_nid :: int
  cfg_dev :: string

text \<open>
  How a run ends: \<open>Code r\<close>, the function returns \<open>r\<close>; \<open>Exit s\<close>, the process exits
  with status \<open>s\<close>; \<open>Halted\<close>, the process is halted by \<open>BUG_ON\<close>; the output that
  goes with \<open>Halted\<close> is what fsck.c has printed up to there.
\<close>

datatype ending = Code int | Exit int | Halted

text \<open>
  The audit of one bitmap zone. \<open>numbfs_fsck\<close> holds this block twice, for the inode
  bitmap and for the block bitmap: \<open>cnt\<close> from the zone loop, the assertion
  \<open>BUG_ON (cnt != total - free)\<close>, the usage line. \<open>Inl\<close> ends the run, \<open>Inr\<close> goes on
  with the output so far.
\<close>

definition fsck_zone ::
  "nat \<Rightarrow> device \<Rightarrow> int \<Rightarrow> int \<Rightarrow> int \<Rightarrow> int \<Rightarrow> string \<Rightarrow> event list
     \<Rightarrow> (ending \<times> event list) + event list" where
  "fsck_zone bpb d start stop n_total n_free fmt out =
     (case zone_loop bpb d start stop 0 of
        Inl i \<Rightarrow> Inl (Code (- EIO), out @ [Err ''failed to read block@%d\<newline>'' [D i]])
      | Inr cnt \<Rightarrow>
          if BUG_ON (sint cnt \<noteq> n_total - n_free) then Inl (Halted, out)
          else Inr (out @ [Out fmt [Pct (sint cnt) n_total]]))"

definition fmt_inodes_usage :: string where
  "fmt_inodes_usage = ''    inodes usage:               %.2f%%\<newline>''"

definition fmt_blocks_usage :: string where
  "fmt_blocks_usage = ''    blocks usage:               %.2f%%\<newline>''"

definition superblock_lines :: "numbfs_superblock_info \<Rightarrow> event list" where
  "superblock_lines sbi =
     [Out ''Superblock Information\<newline>'' [],
      Out ''    inode bitmap start:         %d\<newline>'' [D (ibitmap_start sbi)],
      Out ''    inode zone start:           %d\<newline>'' [D (inode_start sbi)],
      Out ''    block bitmap start:         %d\<newline>'' [D (bbitmap_start sbi)],
      Out ''    data zone start:            %d\<newline>'' [D (data_start sbi)],
      Out ''    free inodes:                %d\<newline>'' [D (free_inodes sbi)],
      Out ''    total inodes:               %d\<newline>'' [D (total_inodes sbi)],
      Out ''    total free blocks:          %d\<newline>'' [D (free_blocks sbi)],
      Out ''    total data blocks:          %d\<newline>'' [D (data_blocks sbi)]]"

text \<open>The last section of \<open>numbfs_fsck\<close>: the inode at \<open>cfg.nid\<close>, when it is not negative.\<close>

definition fsck_inode_section ::
  "env \<Rightarrow> numbfs_fsck_cfg \<Rightarrow> numbfs_superblock_info \<Rightarrow> device \<Rightarrow> event list
     \<Rightarrow> (ending \<times> event list \<times> device) option" where
  "fsck_inode_section e cfg sbi d out =
     (if cfg_nid cfg \<ge> 0 then
        (case numbfs_fsck_show_inode e sbi (cfg_nid cfg) d of
           None \<Rightarrow> None
         | Some (err, iout, d') \<Rightarrow>
             if err \<noteq> 0
             then Some (Code err,
                        out @ iout @ [Err ''error: failed to show inode information\<newline>'' []],
                        d')
             else Some (Code 0, out @ iout, d'))
      else Some (Code 0, out, d))"

definition fsck_blocks_section ::
  "env \<Rightarrow> numbfs_fsck_cfg \<Rightarrow> numbfs_superblock_info \<Rightarrow> device \<Rightarrow> event list
     \<Rightarrow> (ending \<times> event list \<times> device) option" where
  "fsck_blocks_section e cfg sbi d out =
     (if show_blocks cfg then
        (case fsck_zone (BYTES_PER_BLOCK e) d (bbitmap_start sbi) (data_start sbi)
                (data_blocks sbi) (free_blocks sbi) fmt_blocks_usage out of
           Inl (en, out') \<Rightarrow> Some (en, out', d)
         | Inr out' \<Rightarrow> fsck_inode_section e cfg sbi d out')
      else fsck_inode_section e cfg sbi d out)"

definition fsck_inodes_section ::
  "env \<Rightarrow> numbfs_fsck_cfg \<Rightarrow> numbfs_superblock_info \<Rightarrow> device \<Rightarrow> event list
     \<Rightarrow> (ending \<times> event list \<times> device) option" where
  "fsck_inodes_section e cfg sbi d out =
     (if show_inodes cfg then
        (case fsck_zone (BYTES_PER_BLOCK e) d (ibitmap_start sbi) (inode_start sbi)
                (total_inodes sbi) (free_inodes sbi) fmt_inodes_usage out of
           Inl (en, out') \<Rightarrow> Some (en, out', d)
         | Inr out' \<Rightarrow> fsck_blocks_section e cfg sbi d out')
      else fsck_blocks_section e cfg sbi d out)"

text \<open>
  \<open>numbfs_fsck\<close> after the arguments are parsed: the device is opened, the superblock
  read and printed, then the three sections in their order.
\<close>

definition fsck_run ::
  "env \<Rightarrow> numbfs_fsck_cfg \<Rightarrow> device \<Rightarrow> (ending \<times> event list \<times> device) option" where
  "fsck_run e cfg d =
     (case sys_open e (cfg_dev cfg) of
        Some errno \<Rightarrow> Some (Code (- errno), [], d)
      | None \<Rightarrow>
         (case numbfs_get_superblock e d of
            ((err, sbi), d1) \<Rightarrow>
              if err \<noteq> 0 then Some (Code err, [Err ''failed to read superblock\<newline>'' []], d1)
              else fsck_inodes_section e cfg sbi d1 (superblock_lines sbi)))"


subsection \<open>The command line\<close>

text \<open>
  \<open>getopt_long\<close> is libc's: the command line is the sequence of what it returns, one
  option at a time (\<open>Opt_n v\<close>: the option \<open>--nid\<close> or \<open>-n\<close>, \<open>v\<close> what \<open>atoi\<close> makes of
  its argument; \<open>Opt_unknown a\<close>: an option it rejects, \<open>a\<close> the word \<open>argv[optind - 1]\<close>),
  and the words left after the options.
\<close>

datatype getopt_event = Opt_h | Opt_i | Opt_b | Opt_n int | Opt_unknown string

definition help_text :: string where
  "help_text =
     ''Usage: [OPTIONS] TARGET\<newline>'' @
     ''Get disk statistics.\<newline>'' @
     ''\<newline>'' @
     ''Gerneral options:\<newline>'' @
     '' --help                display this help information and exit\<newline>'' @
     '' --inodes|-i           display inode usage\<newline>'' @
     '' --blocks|-b           display block usage\<newline>'' @
     '' --nid=X               display the inode information of inode@nid\<newline>''"

definition numbfs_fsck_help :: event where
  "numbfs_fsck_help = Out help_text []"

text \<open>The \<open>while\<close> loop over the options; \<open>Inl\<close> is \<open>exit\<close> with its status.\<close>

fun parse_opts ::
  "getopt_event list \<Rightarrow> numbfs_fsck_cfg \<Rightarrow> (int \<times> event list) + numbfs_fsck_cfg" where
  "parse_opts [] cfg = Inr cfg"
| "parse_opts (Opt_h # opts) cfg = Inl (0, [numbfs_fsck_help])"
| "parse_opts (Opt_i # opts) cfg = parse_opts opts (cfg\<lparr>show_inodes := True\<rparr>)"
| "parse_opts (Opt_b # opts) cfg = parse_opts opts (cfg\<lparr>show_blocks := True\<rparr>)"
| "parse_opts (Opt_n v # opts) cfg = parse_opts opts (cfg\<lparr>cfg_nid := v\<rparr>)"
| "parse_opts (Opt_unknown a # opts) cfg =
     Inl (1, [Err ''Unknown option: %s\<newline>\<newline>'' [T a], numbfs_fsck_help])"

definition numbfs_fsck_parse_args ::
  "env \<Rightarrow> getopt_event list \<Rightarrow> string list \<Rightarrow> numbfs_fsck_cfg
     \<Rightarrow> (int \<times> event list) + numbfs_fsck_cfg" where
  "numbfs_fsck_parse_args e opts rest cfg =
     (case parse_opts opts cfg of
        Inl x \<Rightarrow> Inl x
      | Inr cfg' \<Rightarrow>
         (case rest of
            [] \<Rightarrow> Inl (1, [Err ''missing block device!\<newline>'' []])
          | dev # _ \<Rightarrow>
              if strdup_ok e then Inr (cfg'\<lparr>cfg_dev := dev\<rparr>)
              else Inl (1, [Err ''failed to get block device path\<newline>'' []])))"

definition cfg_init :: numbfs_fsck_cfg where
  "cfg_init = \<lparr> show_inodes = False, show_blocks = False, cfg_nid = - 1, cfg_dev = [] \<rparr>"

definition numbfs_fsck ::
  "env \<Rightarrow> getopt_event list \<Rightarrow> string list \<Rightarrow> device
     \<Rightarrow> (ending \<times> event list \<times> device) option" where
  "numbfs_fsck e opts rest d =
     (case numbfs_fsck_parse_args e opts rest cfg_init of
        Inl (status, out) \<Rightarrow> Some (Exit status, out, d)
      | Inr cfg \<Rightarrow> fsck_run e cfg d)"

text \<open>\<open>main\<close>: a return value of \<open>numbfs_fsck\<close> other than 0 is reported and the exit
  status is 1.\<close>

definition main ::
  "env \<Rightarrow> getopt_event list \<Rightarrow> string list \<Rightarrow> device
     \<Rightarrow> (ending \<times> event list \<times> device) option" where
  "main e opts rest d =
     (case numbfs_fsck e opts rest d of
        None \<Rightarrow> None
      | Some (Code err, out, d') \<Rightarrow>
          if err \<noteq> 0
          then Some (Exit 1, out @ [Err ''Error occured in fsck, err: %d\<newline>'' [D err]], d')
          else Some (Exit 0, out, d')
      | Some (en, out, d') \<Rightarrow> Some (en, out, d'))"

section \<open>What the claims speak of\<close>

text \<open>The number of set bits of a byte (of its bits 0 to 7) and of a run of bytes.\<close>

definition bits_set :: "byte \<Rightarrow> nat" where
  "bits_set b = length (filter (bit b) [0..<8])"

definition bits_in :: "byte list \<Rightarrow> nat" where
  "bits_in bs = sum_list (map bits_set bs)"

text \<open>The bytes of the blocks \<open>start\<close> up to \<open>stop\<close> of a device.\<close>

definition zone_bytes :: "nat \<Rightarrow> device \<Rightarrow> nat \<Rightarrow> nat \<Rightarrow> byte list" where
  "zone_bytes bpb d start stop = take ((stop - start) * bpb) (drop (start * bpb) d)"

text \<open>The ASCII space.\<close>

definition SPACE :: byte where
  "SPACE = 0x20"

text \<open>
  Attribute blocks of 84 and of 136 bytes (one and two slots after the timestamps). The
  first slot is the spec's example: type 1, the name \<open>user.x\<close>, the value \<open>1\<close>. The
  second slot of the larger block has a name of 16 and a value of 32 bytes.
\<close>

definition xattr_block_one :: "byte list" where
  "xattr_block_one =
     replicate 32 0
     @ [1, 1, 6, 1] @ [0x75, 0x73, 0x65, 0x72, 0x2E, 0x78] @ replicate 10 0
     @ [0x31] @ replicate 31 0"

definition xattr_block_two :: "byte list" where
  "xattr_block_two =
     replicate 32 0
     @ [1, 1, 6, 1] @ [0x75, 0x73, 0x65, 0x72, 0x2E, 0x78] @ replicate 10 0
     @ [0x31] @ replicate 31 0
     @ [1, 2, 16, 32] @ replicate 16 0x61 @ replicate 32 0x62"

text \<open>
  The directory walk. \<open>reads_as e ni blk\<close>: every positioned read of the inode succeeds,
  and \<open>blk off\<close> is the block buffer after the read at \<open>off\<close>.
  \<open>dir_record_line bpb blk k\<close>: the line of record \<open>k\<close>, the window at \<open>64 k\<close> modulo
  the block size of the block that holds byte \<open>64 k\<close>.
\<close>

definition reads_as :: "env \<Rightarrow> numbfs_inode_info \<Rightarrow> (int \<Rightarrow> byte list) \<Rightarrow> bool" where
  "reads_as e ni blk \<longleftrightarrow>
     (\<forall>off d. fst (numbfs_pread_inode e ni off (int (BYTES_PER_BLOCK e)) d) = (0, blk off))"

definition dir_record_line :: "nat \<Rightarrow> (int \<Rightarrow> byte list) \<Rightarrow> nat \<Rightarrow> event" where
  "dir_record_line bpb blk k =
     dirent_line (blk (int (k * 64 div bpb * bpb))) (k * 64 mod bpb)"

text \<open>
  A small world for the examples: one inode \<open>ni\<close> with the attribute block \<open>xblk\<close>
  and the data \<open>content\<close>; every collaborator succeeds and leaves the device alone.
\<close>

definition sim_env ::
  "nat \<Rightarrow> numbfs_superblock_info \<Rightarrow> numbfs_inode_info \<Rightarrow> byte list \<Rightarrow> byte list \<Rightarrow> env" where
  "sim_env bpb sbi ni xblk content =
     \<lparr> BYTES_PER_BLOCK = bpb,
       malloc_ok = True,
       strdup_ok = True,
       sys_open = (\<lambda>path. None),
       numbfs_get_superblock = (\<lambda>d. ((0, sbi), d)),
       numbfs_get_inode = (\<lambda>s n d. ((0, ni), d)),
       numbfs_read_block = (\<lambda>s b d. ((0, xblk), d)),
       numbfs_pread_inode = (\<lambda>i off len d. ((0, take bpb (drop (nat off) content)), d)),
       numbfs_data_blk = (\<lambda>s b. data_start s + b),
       localtime_strftime = (\<lambda>t. Some [0x31, 0x39, 0x37, 0x30]) \<rparr>"

definition sbi_small :: numbfs_superblock_info where
  "sbi_small =
     \<lparr> ibitmap_start = 2, inode_start = 3, bbitmap_start = 4, data_start = 5,
       free_inodes = 7, total_inodes = 8, free_blocks = 6, data_blocks = 8 \<rparr>"

definition dir_inode :: "cint \<Rightarrow> numbfs_inode_info" where
  "dir_inode sz =
     \<lparr> ni_sbi = sbi_small, ni_nid = 0, ni_mode = 0x41ED, ni_nlink = 2, ni_uid = 0, ni_gid = 0,
       ni_size = sz, ni_xattr_start = 0, ni_xattr_count = 0 \<rparr>"

text \<open>
  Two directory records: \<open>a\<close>, a directory with inode 1, and \<open>bc\<close>, a regular file
  with inode 2; both names are followed by NUL bytes.
\<close>

definition rec_a :: "byte list" where
  "rec_a = [1, 4] @ [0x61] @ replicate 59 0 @ [1, 0]"

definition rec_bc :: "byte list" where
  "rec_bc = [2, 8] @ [0x62, 0x63] @ replicate 58 0 @ [2, 0]"

text \<open>
  A directory record as the data model has it: a name buffer of 60 bytes and a name length
  of at most 60. \<open>nul_terminated\<close>: the name holds no NUL and the byte that follows it
  in the buffer is NUL. \<open>entry_line\<close>: the line that reproduces the stored inode number,
  type, name length and name (the first \<open>name_len\<close> bytes of the buffer).
\<close>

definition wf_dirent :: "numbfs_dirent \<Rightarrow> bool" where
  "wf_dirent de \<longleftrightarrow>
     length (de_name de) = NUMBFS_MAX_PATH_LEN \<and> unat (de_name_len de) \<le> NUMBFS_MAX_PATH_LEN"

definition nul_terminated :: "numbfs_dirent \<Rightarrow> bool" where
  "nul_terminated de \<longleftrightarrow>
     unat (de_name_len de) < NUMBFS_MAX_PATH_LEN
     \<and> 0 \<notin> set (take (unat (de_name_len de)) (de_name de))
     \<and> de_name de ! unat (de_name_len de) = 0"

definition entry_line :: "numbfs_dirent \<Rightarrow> event" where
  "entry_line de =
     Out fmt_dirent
       [D (uint (de_ino de)),
        T (numbfs_dir_type (uint (de_type de))),
        D (uint (de_name_len de)),
        S (take (unat (de_name_len de)) (de_name de))]"

text \<open>
  \<open>holds_content bpb blk content\<close>: the block read at a multiple of the block size
  below the length of \<open>content\<close> has \<open>bpb\<close> bytes and agrees with \<open>content\<close> as far as
  \<open>content\<close> reaches.
\<close>

definition holds_content :: "nat \<Rightarrow> (int \<Rightarrow> byte list) \<Rightarrow> byte list \<Rightarrow> bool" where
  "holds_content bpb blk content \<longleftrightarrow>
     (\<forall>j. j * bpb < length content \<longrightarrow>
        length (blk (int (j * bpb))) = bpb
        \<and> take (length content - j * bpb) (blk (int (j * bpb))) = take bpb (drop (j * bpb) content))"

text \<open>
  More records: \<open>hello\<close> stored with the name length 2; \<open>abcd\<close> stored with the name
  length 3; a name of 60 bytes \<open>x\<close>, which fills the buffer, with the two bytes of its
  inode number after it.
\<close>

definition rec_hello :: "byte list" where
  "rec_hello = [2, 8] @ [0x68, 0x65, 0x6C, 0x6C, 0x6F] @ replicate 55 0 @ [7, 0]"

definition rec_abcd :: "byte list" where
  "rec_abcd = [3, 8] @ [0x61, 0x62, 0x63, 0x64] @ replicate 56 0 @ [2, 0]"

definition rec_full :: "byte \<Rightarrow> byte \<Rightarrow> byte list" where
  "rec_full lo hi = [60, 8] @ replicate 60 0x78 @ [lo, hi]"

text \<open>The records \<open>rec_a\<close> and \<open>rec_bc\<close> as structures.\<close>

definition de_a :: numbfs_dirent where
  "de_a = \<lparr> de_name_len = 1, de_type = 4, de_name = [0x61] @ replicate 59 0, de_ino = 1 \<rparr>"

definition de_bc :: numbfs_dirent where
  "de_bc = \<lparr> de_name_len = 2, de_type = 8, de_name = [0x62, 0x63] @ replicate 58 0, de_ino = 2 \<rparr>"

text \<open>
  \<open>zone_count\<close>: the count the audit of a zone arrives at (0 when a block cannot be
  read). \<open>zone_ok\<close>: every block of the zone is read and the count is the superblock's
  \<open>total - free\<close>. \<open>usage_lines\<close>: the usage lines of the zones a run was asked for.
\<close>

definition zone_count :: "nat \<Rightarrow> device \<Rightarrow> int \<Rightarrow> int \<Rightarrow> int" where
  "zone_count bpb d start stop =
     (case zone_loop bpb d start stop 0 of Inl i \<Rightarrow> 0 | Inr cnt \<Rightarrow> sint cnt)"

definition zone_ok :: "nat \<Rightarrow> device \<Rightarrow> int \<Rightarrow> int \<Rightarrow> int \<Rightarrow> int \<Rightarrow> bool" where
  "zone_ok bpb d start stop n_total n_free =
     (case zone_loop bpb d start stop 0 of
        Inl i \<Rightarrow> False
      | Inr cnt \<Rightarrow> sint cnt = n_total - n_free)"

definition usage_lines ::
  "nat \<Rightarrow> numbfs_fsck_cfg \<Rightarrow> numbfs_superblock_info \<Rightarrow> device \<Rightarrow> event list" where
  "usage_lines bpb cfg sbi d =
     (if show_inodes cfg
      then [Out fmt_inodes_usage
              [Pct (zone_count bpb d (ibitmap_start sbi) (inode_start sbi)) (total_inodes sbi)]]
      else [])
     @ (if show_blocks cfg
        then [Out fmt_blocks_usage
                [Pct (zone_count bpb d (bbitmap_start sbi) (data_start sbi)) (data_blocks sbi)]]
        else [])"

text \<open>
  Devices of five blocks of 64 bytes for the superblock \<open>sbi_small\<close>: block 2 is the
  inode bitmap and starts with the byte \<open>ib\<close>, block 4 is the block bitmap and starts
  with the byte \<open>bb\<close>; every other byte is 0. The superblock counts one inode and two
  blocks in use. \<open>world\<close> is the small world with a directory of the two records
  \<open>a\<close> and \<open>bc\<close> and an attribute block of zeros.
\<close>

definition dev_bitmaps :: "byte \<Rightarrow> byte \<Rightarrow> device" where
  "dev_bitmaps ib bb =
     replicate 128 0 @ (ib # replicate 63 0) @ replicate 64 0 @ (bb # replicate 63 0)"

definition world :: env where
  "world = sim_env 64 sbi_small (dir_inode 128) (replicate 64 0) (rec_a @ rec_bc)"

section \<open>Counting the set bits\<close>

lemma lsb_word: "ucast ((b::byte) AND 1) = (of_bool (bit b 0) :: cint)"
  by (simp add: and_one_eq mod_2_eq_odd bit_0 flip: even_iff_mod_2_eq_zero)

lemma count_bit_loop_sum:
  "count_bit_loop i b r = r + (\<Sum>k<8 - i. of_bool (bit b k))"
proof (induction i b r rule: count_bit_loop.induct)
  case (1 i byte ret)
  show ?case
  proof (cases "i < 8")
    case True
    then have s: "8 - i = Suc (8 - (i + 1))" by simp
    have "count_bit_loop i byte ret
        = count_bit_loop (i + 1) (drop_bit 1 byte) (ret + ucast (byte AND 1))"
      using True by (subst count_bit_loop.simps) simp
    also have "\<dots> = ret + of_bool (bit byte 0)
        + (\<Sum>k<8 - (i + 1). of_bool (bit (drop_bit 1 byte) k))"
      using "1.IH" [OF True] by (simp add: lsb_word)
    also have "\<dots> = ret + (\<Sum>k<8 - i. of_bool (bit byte k))"
      unfolding s sum.lessThan_Suc_shift by (simp add: bit_drop_bit_eq add.assoc)
    finally show ?thesis .
  next
    case False
    then show ?thesis by (subst count_bit_loop.simps) simp
  qed
qed

lemma bits_set_card: "bits_set b = card {n. bit b n}"
proof -
  have "{n. bit b n} = {n \<in> set [0..<8]. bit b n}"
    by (auto dest: bit_imp_le_length)
  then have "card {n. bit b n} = card (set (filter (bit b) [0..<8]))"
    by simp
  also have "\<dots> = length (filter (bit b) [0..<8])"
    by (intro distinct_card distinct_filter) simp
  finally show ?thesis
    by (simp add: bits_set_def)
qed

lemma bits_set_sum: "bits_set b = (\<Sum>k<8. of_bool (bit b k))"
proof -
  have "{n. bit b n} = {..<8} \<inter> {n. bit b n}"
    by (auto dest: bit_imp_le_length)
  then have "bits_set b = card ({..<8} \<inter> {n. bit b n})"
    by (simp add: bits_set_card)
  also have "\<dots> = (\<Sum>k<8. of_bool (bit b k))"
    by (simp add: sum_of_bool_eq)
  finally show ?thesis .
qed

lemma count_bit_eq: "count_bit b = of_nat (bits_set b)"
  unfolding count_bit_def count_bit_loop_sum bits_set_sum by simp

lemma fsck_used_loop_sum:
  "length buf = bpb \<Longrightarrow> i \<le> bpb \<Longrightarrow>
     fsck_used_loop bpb i buf ret = ret + of_nat (bits_in (drop i buf))"
proof (induction bpb i buf ret rule: fsck_used_loop.induct)
  case (1 bpb i buf ret)
  show ?case
  proof (cases "i < bpb")
    case True
    with "1.prems" have d: "drop i buf = buf ! i # drop (i + 1) buf"
      by (simp add: Cons_nth_drop_Suc)
    have "fsck_used_loop bpb i buf ret
        = fsck_used_loop bpb (i + 1) buf (ret + count_bit (buf ! i))"
      using True by (subst fsck_used_loop.simps) simp
    also have "\<dots> = ret + count_bit (buf ! i) + of_nat (bits_in (drop (i + 1) buf))"
      using "1.IH" [OF True] "1.prems" True by simp
    also have "\<dots> = ret + of_nat (bits_in (drop i buf))"
      unfolding d by (simp add: bits_in_def count_bit_eq)
    finally show ?thesis .
  next
    case False
    with "1.prems" show ?thesis
      by (subst fsck_used_loop.simps) (simp add: bits_in_def)
  qed
qed

lemma numbfs_fsck_used_eq:
  "length buf = bpb \<Longrightarrow> numbfs_fsck_used bpb buf = of_nat (bits_in buf)"
  by (simp add: numbfs_fsck_used_def fsck_used_loop_sum)

lemma bits_in_append: "bits_in (xs @ ys) = bits_in xs + bits_in ys"
  by (simp add: bits_in_def)

lemma bits_in_replicate: "bits_in (replicate n b) = n * bits_set b"
  by (simp add: bits_in_def sum_list_replicate)

lemma bits_set_unfold:
  "bits_set b = of_bool (bit b 0) + of_bool (bit b 1) + of_bool (bit b 2) + of_bool (bit b 3)
     + of_bool (bit b 4) + of_bool (bit b 5) + of_bool (bit b 6) + of_bool (bit b 7)"
  unfolding bits_set_sum by (simp add: eval_nat_numeral lessThan_Suc del: sum_of_bool_eq)

lemma zone_bytes_step:
  "i < stop \<Longrightarrow>
     zone_bytes bpb d i stop = take bpb (drop (i * bpb) d) @ zone_bytes bpb d (Suc i) stop"
proof -
  assume "i < stop"
  then have s: "(stop - i) * bpb = bpb + (stop - Suc i) * bpb"
    by (metis Suc_diff_Suc mult_Suc)
  show ?thesis
    unfolding zone_bytes_def s take_add by (simp add: add.commute)
qed

lemma zone_bytes_empty: "stop \<le> i \<Longrightarrow> zone_bytes bpb d i stop = []"
  by (simp add: zone_bytes_def)

lemma sint_word_of_int_32:
  "- (2 ^ 31) \<le> x \<Longrightarrow> x < 2 ^ 31 \<Longrightarrow> sint (word_of_int x :: cint) = x"
proof -
  assume x: "- (2 ^ 31) \<le> x" "x < 2 ^ 31"
  have "sint (word_of_int x :: cint) = (x + 2 ^ 31) mod 2 ^ 32 - 2 ^ 31"
    by (simp only: int_word_sint) simp
  also have "\<dots> = x"
    using x by simp
  finally show ?thesis .
qed

lemma int_mul_exact:
  "0 \<le> a \<Longrightarrow> 0 \<le> b \<Longrightarrow> a * b < 2 ^ 31 \<Longrightarrow> int_mul a b = a * b"
proof -
  assume a: "0 \<le> a" "0 \<le> b" "a * b < 2 ^ 31"
  have "int_mul a b = sint (word_of_int (a * b) :: cint)"
    by (simp add: int_mul_def)
  also have "\<dots> = a * b"
  proof (rule sint_word_of_int_32)
    have "0 \<le> a * b"
      using a(1,2) by simp
    then show "- (2 ^ 31) \<le> a * b"
      by simp
    show "a * b < 2 ^ 31"
      by (rule a(3))
  qed
  finally show ?thesis .
qed

lemma pread_block:
  assumes "0 \<le> i" and "(nat i + 1) * bpb \<le> length d" and "nat i * bpb < 2 ^ 31"
  shows "pread d bpb (int_mul i (int bpb)) = (int bpb, take bpb (drop (nat i * bpb) d))"
proof -
  have p: "i * int bpb = int (nat i * bpb)"
    using assms(1) by simp
  have "i * int bpb < 2 ^ 31"
    unfolding p using assms(3) by (metis of_nat_less_iff of_nat_numeral of_nat_power)
  then have m: "int_mul i (int bpb) = i * int bpb"
    using assms(1) by (intro int_mul_exact) simp_all
  have o: "nat (i * int bpb) = nat i * bpb"
    using assms(1) by (simp add: nat_mult_distrib)
  have "bpb \<le> length d - nat i * bpb"
    using assms(2) by simp
  then show ?thesis
    using assms(1) by (simp add: m pread_def o Let_def min_def not_less)
qed

lemma zone_loop_count:
  "0 \<le> i \<Longrightarrow> i \<le> stop \<Longrightarrow> nat stop * bpb \<le> length d \<Longrightarrow> nat stop * bpb \<le> 2 ^ 31 \<Longrightarrow>
     zone_loop bpb d i stop cnt
       = Inr (cnt + of_nat (bits_in (zone_bytes bpb d (nat i) (nat stop))))"
proof (induction bpb d i stop cnt rule: zone_loop.induct)
  case (1 bpb d i stop cnt)
  show ?case
  proof (cases "i < stop")
    case True
    have le: "(nat i + 1) * bpb \<le> nat stop * bpb"
      using True "1.prems"(1) by (intro mult_le_mono1) linarith
    have lt: "nat i * bpb < 2 ^ 31"
    proof (cases "bpb = 0")
      case True
      then show ?thesis by simp
    next
      case False
      then have "nat i * bpb < (nat i + 1) * bpb"
        by simp
      with le "1.prems"(4) show ?thesis
        by linarith
    qed
    with le "1.prems" have r: "pread d bpb (int_mul i (int bpb)) = (int bpb, take bpb (drop (nat i * bpb) d))"
      by (intro pread_block) auto
    have l: "length (take bpb (drop (nat i * bpb) d)) = bpb"
      using le "1.prems"(3) by simp
    have n: "nat (i + 1) = Suc (nat i)"
      using "1.prems"(1) by simp
    have "zone_loop bpb d i stop cnt
        = zone_loop bpb d (i + 1) stop (cnt + numbfs_fsck_used bpb (take bpb (drop (nat i * bpb) d)))"
      using True by (subst zone_loop.simps) (simp add: r)
    also have "\<dots> = Inr (cnt + of_nat (bits_in (take bpb (drop (nat i * bpb) d)))
        + of_nat (bits_in (zone_bytes bpb d (nat (i + 1)) (nat stop))))"
      using "1.IH" [OF True] True "1.prems" by (simp add: r numbfs_fsck_used_eq [OF l])
    also have "\<dots> = Inr (cnt + of_nat (bits_in (zone_bytes bpb d (nat i) (nat stop))))"
      using True "1.prems"(1) by (simp add: zone_bytes_step [of "nat i" "nat stop"] bits_in_append n)
    finally show ?thesis .
  next
    case False
    with "1.prems" show ?thesis
      by (subst zone_loop.simps) (simp add: zone_bytes_empty bits_in_def)
  qed
qed

lemma sint_of_nat_32: "k < 2 ^ 31 \<Longrightarrow> sint (word_of_nat k :: cint) = int k"
proof -
  assume k: "k < 2 ^ 31"
  have "sint (word_of_nat k :: cint) = sint (word_of_int (int k) :: cint)"
    by simp
  also have "\<dots> = (int k + 2 ^ 31) mod 2 ^ 32 - 2 ^ 31"
    by (simp only: int_word_sint) simp
  also have "\<dots> = int k"
    using k by simp
  finally show ?thesis .
qed

lemma bits_set_le: "bits_set b \<le> 8"
  by (simp add: bits_set_unfold)

text \<open>
  C4, as amended. For a bitmap zone that lies in the first \<open>2^31\<close> bytes of the device
  (so that every block of it has an offset an \<open>int\<close> holds and can be read) and that holds
  \<open>k\<close> set bits, \<open>k\<close> below \<open>2^31\<close>, the auditor's count is exactly \<open>k\<close>, wherever the
  bits lie: \<open>count_bit\<close> returns the number of set bits of a byte, \<open>numbfs_fsck_used\<close> the
  number of set bits of a block, and the zone loop their sum.
\<close>

theorem bitmap_zone_count_exact:
  assumes "0 \<le> start" and "start \<le> stop" and "nat stop * bpb \<le> length d"
    and "nat stop * bpb \<le> 2 ^ 31"
    and "bits_in (zone_bytes bpb d (nat start) (nat stop)) = k" and "k < 2 ^ 31"
  shows "(\<exists>cnt. zone_loop bpb d start stop 0 = Inr cnt \<and> sint cnt = int k)
    \<and> (\<forall>b. sint (count_bit b) = int (bits_set b))
    \<and> (\<forall>buf. length buf = bpb \<and> bits_in buf < 2 ^ 31
          \<longrightarrow> sint (numbfs_fsck_used bpb buf) = int (bits_in buf))"
proof (intro conjI allI impI)
  show "\<exists>cnt. zone_loop bpb d start stop 0 = Inr cnt \<and> sint cnt = int k"
    using assms by (simp add: zone_loop_count sint_of_nat_32)
next
  fix b :: byte
  have "bits_set b < 2 ^ 31"
    using bits_set_le [of b] by simp
  then show "sint (count_bit b) = int (bits_set b)"
    by (simp add: count_bit_eq sint_of_nat_32)
next
  fix buf :: "byte list"
  assume "length buf = bpb \<and> bits_in buf < 2 ^ 31"
  then show "sint (numbfs_fsck_used bpb buf) = int (bits_in buf)"
    by (simp add: numbfs_fsck_used_eq sint_of_nat_32)
qed

text \<open>
  An instance: a device of three blocks of four bytes, the zone of blocks 1 and 2 with
  16 set bits.
\<close>

theorem bitmap_zone_count_exact_witness:
  "(\<exists>cnt. zone_loop 4 [0x0F, 0, 1, 0x80, 0xFF, 0, 0, 0x11, 0, 0xF0, 3, 0] 1 3 0 = Inr cnt
      \<and> sint cnt = 16)
   \<and> sint (count_bit 0x51) = 3
   \<and> sint (numbfs_fsck_used 4 [0xFF, 0, 0, 0x11]) = 10"
  using bitmap_zone_count_exact
    [of 1 3 4 "[0x0F, 0, 1, 0x80, 0xFF, 0, 0, 0x11, 0, 0xF0, 3, 0]" 16]
  by (simp add: zone_bytes_def bits_in_def bits_set_unfold)

text \<open>
  C4 as stated fails where the count outgrows \<open>int\<close>: a zone of 524288 blocks of 512
  bytes, every bit set, holds \<open>2^31\<close> set bits, and the counter, an \<open>int\<close>, ends at
  \<open>-2^31\<close>. It fails as well where the offset of a block outgrows \<open>int\<close>: on a device
  of 4194305 blocks of 512 bytes, every bit set, the zone that is the last block holds 4096
  set bits; the offset \<open>4194304 * 512\<close> of the block is \<open>-2^31\<close> as an \<open>int\<close>, the read
  fails and the audit ends with no count.
\<close>

theorem bitmap_zone_count_overflow:
  "bits_in (zone_bytes 512 (replicate 268435456 255) 0 524288) = 2147483648
   \<and> zone_loop 512 (replicate 268435456 255) 0 524288 0 = Inr 2147483648
   \<and> sint (2147483648 :: cint) = - 2147483648
   \<and> bits_in (zone_bytes 512 (replicate 2147484160 255) 4194304 4194305) = 4096
   \<and> int_mul 4194304 512 = - 2147483648
   \<and> zone_loop 512 (replicate 2147484160 255) 4194304 4194305 0 = Inl 4194304"
proof -
  have z: "zone_bytes 512 (replicate 268435456 255) 0 524288 = replicate 268435456 (255::byte)"
    unfolding zone_bytes_def by (simp only: take_replicate drop_replicate mult_0 diff_zero) simp
  have f: "bits_set 255 = 8"
    by (simp add: bits_set_unfold)
  have b: "bits_in (replicate 268435456 (255 :: byte)) = 2147483648"
    unfolding bits_in_replicate f by simp
  have l: "nat 524288 * 512 \<le> length (replicate 268435456 (255::byte))"
    by (simp only: length_replicate)
  have "zone_loop 512 (replicate 268435456 255) 0 524288 0
      = Inr (0 + of_nat (bits_in (zone_bytes 512 (replicate 268435456 255) (nat 0) (nat 524288))))"
    using l by (intro zone_loop_count) simp_all
  also have "nat 0 = 0" by simp
  also have "nat 524288 = 524288" by simp
  finally have r: "zone_loop 512 (replicate 268435456 255) 0 524288 0 = Inr 2147483648"
    unfolding z b by simp
  have s: "sint (2147483648 :: cint) = - 2147483648"
    by simp
  have z2: "zone_bytes 512 (replicate 2147484160 255) 4194304 4194305 = replicate 512 (255::byte)"
    unfolding zone_bytes_def by (simp only: take_replicate drop_replicate) simp
  have b2: "bits_in (replicate 512 (255 :: byte)) = 4096"
    unfolding bits_in_replicate f by simp
  have o: "int_mul 4194304 512 = - 2147483648"
    by (simp add: int_mul_def)
  have p: "pread (replicate 2147484160 255) 512 (- 2147483648) = (- 1, [])"
    by (simp add: pread_def)
  have r2: "zone_loop 512 (replicate 2147484160 255) 4194304 4194305 0 = Inl 4194304"
    by (subst zone_loop.simps) (simp add: o p)
  from z b r s z2 b2 o r2 show ?thesis by (simp only: simp_thms)
qed

section \<open>The attribute formatter\<close>

lemma pad_loop_length: "length (pad_loop field len front j) = length field"
proof (induction field len front j rule: pad_loop.induct)
  case (1 field len front j)
  then show ?case by (subst pad_loop.simps) simp
qed

lemma pad_loop_closed:
  "int j \<le> front \<Longrightarrow> nat front + len \<le> length field \<Longrightarrow>
     pad_loop field len front j
       = take (j + len) field @ replicate (nat front - j) 0x20 @ drop (nat front + len) field"
proof (induction field len front j rule: pad_loop.induct)
  case (1 field len front j)
  show ?case
  proof (cases "int j < front")
    case True
    then have lt: "j + len < length field" and jf: "j < nat front"
      using "1.prems" by auto
    have r: "nat front - j = Suc (nat front - (j + 1))"
      using jf by simp
    have "pad_loop field len front j = pad_loop (field[j + len := 0x20]) len front (j + 1)"
      using True by (subst pad_loop.simps) simp
    also have "\<dots> = take (j + 1 + len) (field[j + len := 0x20])
        @ replicate (nat front - (j + 1)) 0x20 @ drop (nat front + len) (field[j + len := 0x20])"
      using "1.IH" [OF True] True "1.prems" by simp
    also have "take (j + 1 + len) (field[j + len := 0x20]) = take (j + len) field @ [0x20]"
      using lt by (simp add: take_Suc_conv_app_nth)
    also have "drop (nat front + len) (field[j + len := 0x20]) = drop (nat front + len) field"
      using jf by simp
    finally show ?thesis
      unfolding r by (simp add: replicate_app_Cons_same)
  next
    case False
    with "1.prems" have "nat front = j" by simp
    with False show ?thesis
      by (subst pad_loop.simps) simp
  qed
qed

lemma takeWhile_nonzero:
  "0 \<notin> set xs \<Longrightarrow> takeWhile (\<lambda>b. b \<noteq> 0) (xs @ 0 # ys) = (xs :: byte list)"
  by (induction xs) auto

lemma cstring_terminated:
  "0 \<notin> set xs \<Longrightarrow> cstring (xs @ 0 # ys) = S xs"
  by (simp add: cstring_def takeWhile_nonzero)

lemma xattr_field_padded:
  assumes "len < width" and "len \<le> length src" and "0 \<notin> set (take len src)"
  shows "xattr_field width src len = Some (S (take len src @ replicate (width - 1 - len) 0x20))"
proof -
  have f: "nat (int width - int len - 1) = width - 1 - len"
    using assms(1) by simp
  have p: "pad_loop (replicate width 0) len (int width - int len - 1) 0
      = replicate len 0 @ replicate (width - 1 - len) 0x20 @ [0]"
    using assms(1) by (subst pad_loop_closed) (simp_all add: f min_def)
  have m: "memcpy (pad_loop (replicate width 0) len (int width - int len - 1) 0) src len
      = (take len src @ replicate (width - 1 - len) 0x20) @ 0 # []"
    unfolding p memcpy_def by simp
  have z: "0 \<notin> set (take len src @ replicate (width - 1 - len) (0x20 :: byte))"
    using assms(3) by auto
  show ?thesis
    using assms(1) unfolding xattr_field_def m cstring_terminated [OF z] by simp
qed


lemma xattr_slot_in_block:
  "i < NUMBFS_XATTR_MAX_ENTRY bpb \<Longrightarrow>
     NUMBFS_XATTR_ENTRY_START + i * sizeof_numbfs_xattr_entry + sizeof_numbfs_xattr_entry \<le> bpb"
proof -
  assume "i < NUMBFS_XATTR_MAX_ENTRY bpb"
  then have "Suc i \<le> (bpb - 32) div 52"
    by (simp add: NUMBFS_XATTR_MAX_ENTRY_def sizeof_numbfs_timestamps_def
        sizeof_numbfs_xattr_entry_def NUMBFS_XATTR_MAXNAME_def NUMBFS_XATTR_MAXVALUE_def)
  then have "Suc i * 52 \<le> bpb - 32"
    by (simp add: less_eq_div_iff_mult_less_eq)
  then show ?thesis
    by (simp add: NUMBFS_XATTR_ENTRY_START_def sizeof_numbfs_timestamps_def
        sizeof_numbfs_xattr_entry_def NUMBFS_XATTR_MAXNAME_def NUMBFS_XATTR_MAXVALUE_def)
qed


text \<open>
  C2, as amended. In a block of \<open>bpb\<close> bytes, a valid slot with a name of at most 15
  and a value of at most 31 bytes, neither holding a NUL, is printed with the name
  followed by spaces up to 15 characters and the value followed by spaces up to 31
  characters: the sixteenth and the thirty-second byte of the fields stay NUL, the
  terminators of the two strings.
\<close>

theorem xattr_slot_rendering:
  assumes "length buf = bpb" and "i < NUMBFS_XATTR_MAX_ENTRY bpb"
    and "xe = xattr_entry_at buf (NUMBFS_XATTR_ENTRY_START + i * sizeof_numbfs_xattr_entry)"
    and "e_valid xe \<noteq> 0"
    and "unat (e_nlen xe) \<le> 15" and "unat (e_vlen xe) \<le> 31"
    and "0 \<notin> set (take (unat (e_nlen xe)) (e_name xe))"
    and "0 \<notin> set (take (unat (e_vlen xe)) (e_value xe))"
    and "name = take (unat (e_nlen xe)) (e_name xe) @ replicate (15 - unat (e_nlen xe)) SPACE"
    and "val = take (unat (e_vlen xe)) (e_value xe) @ replicate (31 - unat (e_vlen xe)) SPACE"
  shows "xattr_loop bpb buf i out
           = xattr_loop bpb buf (i + 1) (out @ [Out fmt_xattr [D (uint (e_type xe)), S name, S val]])
         \<and> length name = 15 \<and> length val = 31"
proof -
  let ?off = "NUMBFS_XATTR_ENTRY_START + i * sizeof_numbfs_xattr_entry"
  have b: "?off + 52 \<le> length buf"
    using xattr_slot_in_block [OF assms(2)] assms(1)
    by (simp add: sizeof_numbfs_xattr_entry_def NUMBFS_XATTR_MAXNAME_def NUMBFS_XATTR_MAXVALUE_def)
  have ln: "length (e_name xe) = 16" and lv: "length (e_value xe) = 32"
    using b unfolding assms(3) xattr_entry_at_def
    by (simp_all add: NUMBFS_XATTR_MAXNAME_def NUMBFS_XATTR_MAXVALUE_def)
  have n: "xattr_field NUMBFS_XATTR_MAXNAME (e_name xe) (unat (e_nlen xe)) = Some (S name)"
    using assms(5,7) ln unfolding assms(9) SPACE_def NUMBFS_XATTR_MAXNAME_def
    by (subst xattr_field_padded) simp_all
  have v: "xattr_field NUMBFS_XATTR_MAXVALUE (e_value xe) (unat (e_vlen xe)) = Some (S val)"
    using assms(6,8) lv unfolding assms(10) SPACE_def NUMBFS_XATTR_MAXVALUE_def
    by (subst xattr_field_padded) simp_all
  have l: "xattr_line xe = Some (Out fmt_xattr [D (uint (e_type xe)), S name, S val])"
    by (simp add: xattr_line_def n v)
  have "xattr_loop bpb buf i out
      = xattr_loop bpb buf (i + 1) (out @ [Out fmt_xattr [D (uint (e_type xe)), S name, S val]])"
    using assms(2,4) l unfolding assms(3) by (subst xattr_loop.simps) simp
  moreover have "length name = 15" and "length val = 31"
    using assms(5,6) ln lv unfolding assms(9,10) by simp_all
  ultimately show ?thesis by simp
qed


lemmas xattr_consts = NUMBFS_XATTR_MAX_ENTRY_def sizeof_numbfs_timestamps_def
  sizeof_numbfs_xattr_entry_def NUMBFS_XATTR_MAXNAME_def NUMBFS_XATTR_MAXVALUE_def
  NUMBFS_XATTR_ENTRY_START_def

text \<open>
  An instance: the block of one slot with the name \<open>user.x\<close> and the value \<open>1\<close>.
\<close>

theorem xattr_slot_rendering_witness:
  "xattr_loop 84 xattr_block_one 0 []
     = Some [Out fmt_xattr
         [D 1, S ([0x75, 0x73, 0x65, 0x72, 0x2E, 0x78] @ replicate 9 SPACE),
               S ([0x31] @ replicate 30 SPACE)]]"
proof -
  have "xattr_loop 84 xattr_block_one 0 []
      = xattr_loop 84 xattr_block_one (0 + 1) ([] @ [Out fmt_xattr
         [D (uint (e_type (xattr_entry_at xattr_block_one 32))),
          S ([0x75, 0x73, 0x65, 0x72, 0x2E, 0x78] @ replicate 9 SPACE),
          S ([0x31] @ replicate 30 SPACE)]])"
    using xattr_slot_rendering [of xattr_block_one 84 0 "xattr_entry_at xattr_block_one 32"
        "[0x75, 0x73, 0x65, 0x72, 0x2E, 0x78] @ replicate 9 SPACE"
        "[0x31] @ replicate 30 SPACE" "[]"]
    by (simp add: xattr_consts xattr_block_one_def xattr_entry_at_def nth_append)
  also have "\<dots> = Some [Out fmt_xattr
         [D 1, S ([0x75, 0x73, 0x65, 0x72, 0x2E, 0x78] @ replicate 9 SPACE),
               S ([0x31] @ replicate 30 SPACE)]]"
    by (subst xattr_loop.simps) (simp add: xattr_consts xattr_block_one_def xattr_entry_at_def nth_append)
  finally show ?thesis .
qed


lemma pad_loop_none: "front \<le> int j \<Longrightarrow> pad_loop field len front j = field"
  by (subst pad_loop.simps) simp

lemma xattr_field_full:
  "length src = width \<Longrightarrow> 0 \<notin> set src \<Longrightarrow> xattr_field width src width = Some (Sover src)"
  by (simp add: xattr_field_def pad_loop_none memcpy_def cstring_def)

text \<open>
  C2 as stated fails on the spec's own example: the name \<open>user.x\<close> is printed 15
  characters wide and the value \<open>1\<close> 31 characters wide. A name of 16 bytes and a value
  of 32 bytes leave no terminator in their fields.
\<close>

theorem xattr_field_width_counterexample:
  "xattr_loop 136 xattr_block_two 0 []
     = Some [Out fmt_xattr
               [D 1, S ([0x75, 0x73, 0x65, 0x72, 0x2E, 0x78] @ replicate 9 0x20),
                     S ([0x31] @ replicate 30 0x20)],
             Out fmt_xattr [D 2, Sover (replicate 16 0x61), Sover (replicate 32 0x62)]]
   \<and> length ([0x75, 0x73, 0x65, 0x72, 0x2E, 0x78] @ replicate 9 (0x20 :: byte)) = 15
   \<and> length ([0x31] @ replicate 30 (0x20 :: byte)) = 31"
proof -
  have e0: "xattr_entry_at xattr_block_two 32
      = \<lparr> e_valid = 1, e_type = 1, e_nlen = 6, e_vlen = 1,
          e_name = [0x75, 0x73, 0x65, 0x72, 0x2E, 0x78] @ replicate 10 0,
          e_value = [0x31] @ replicate 31 0 \<rparr>"
    by (simp add: xattr_entry_at_def xattr_block_two_def xattr_consts nth_append)
  have e1: "xattr_entry_at xattr_block_two 84
      = \<lparr> e_valid = 1, e_type = 2, e_nlen = 16, e_vlen = 32,
          e_name = replicate 16 0x61, e_value = replicate 32 0x62 \<rparr>"
    by (simp add: xattr_entry_at_def xattr_block_two_def xattr_consts nth_append)
  have l0: "xattr_line (xattr_entry_at xattr_block_two 32)
      = Some (Out fmt_xattr
               [D 1, S ([0x75, 0x73, 0x65, 0x72, 0x2E, 0x78] @ replicate 9 0x20),
                     S ([0x31] @ replicate 30 0x20)])"
    unfolding e0 xattr_line_def by (simp add: xattr_field_padded xattr_consts)
  have l1: "xattr_line (xattr_entry_at xattr_block_two 84)
      = Some (Out fmt_xattr [D 2, Sover (replicate 16 0x61), Sover (replicate 32 0x62)])"
    unfolding e1 xattr_line_def by (simp add: xattr_field_full [of _ 16] xattr_field_full [of _ 32] xattr_consts)
  have v0: "e_valid (xattr_entry_at xattr_block_two 32) \<noteq> 0"
    and v1: "e_valid (xattr_entry_at xattr_block_two 84) \<noteq> 0"
    unfolding e0 e1 by simp_all
  have "xattr_loop 136 xattr_block_two 0 []
      = Some [Out fmt_xattr
               [D 1, S ([0x75, 0x73, 0x65, 0x72, 0x2E, 0x78] @ replicate 9 0x20),
                     S ([0x31] @ replicate 30 0x20)],
              Out fmt_xattr [D 2, Sover (replicate 16 0x61), Sover (replicate 32 0x62)]]"
    apply (subst xattr_loop.simps, simp add: xattr_consts)
    apply (simp add: l0 v0)
    apply (subst xattr_loop.simps, simp add: xattr_consts)
    apply (simp add: l1 v1)
    apply (subst xattr_loop.simps, simp add: xattr_consts)
    done
  then show ?thesis by simp
qed

section \<open>The directory walk\<close>

lemma same_block:
  fixes b k :: nat
  assumes "0 < b" and "b mod 64 = 0" and "(k * 64 + 64) mod b \<noteq> 0"
  shows "(k * 64 + 64) div b = k * 64 div b"
proof -
  from assms(2) have "64 dvd b"
    by (simp add: mod_0_imp_dvd)
  then obtain c where c: "b = 64 * c"
    by (auto elim: dvdE)
  have "0 < c" using assms(1) c by simp
  have m: "k * 64 mod b = 64 * (k mod c)"
    unfolding c by (simp add: mult.commute mult_mod_right)
  have "k mod c < c" using \<open>0 < c\<close> by simp
  then have "Suc (k mod c) \<le> c" by simp
  moreover have "Suc (k mod c) \<noteq> c"
  proof
    assume e: "Suc (k mod c) = c"
    have "(k * 64 + 64) mod b = (k * 64 mod b + 64) mod b"
      by (simp add: mod_add_left_eq)
    also have "\<dots> = (64 * Suc (k mod c)) mod b"
      unfolding m by (simp add: add.commute)
    also have "\<dots> = 0"
      unfolding e c by simp
    finally show False using assms(3) by simp
  qed
  ultimately have "Suc (k mod c) < c" by simp
  then have lt: "k * 64 mod b + 64 < b"
    unfolding m c by simp
  define q where "q = k * 64 div b"
  define r where "r = k * 64 mod b"
  have k: "k * 64 = q * b + r"
    by (simp add: q_def r_def)
  have r: "r + 64 < b"
    using lt by (simp add: r_def)
  have "(k * 64 + 64) div b = (q * b + (r + 64)) div b"
    unfolding k by (simp add: add.assoc)
  also have "\<dots> = q"
    using r by simp
  finally show ?thesis
    by (simp add: q_def)
qed

lemma c_div_nat: "c_div (int a) (int b) = int (a div b)"
  by (cases "a = 0"; cases "b = 0") (simp_all add: c_div_def zdiv_int)

lemma c_mod_nat: "c_mod (int a) (int b) = int (a mod b)"
  unfolding c_mod_def c_div_nat
  by (simp add: zmod_int minus_mult_div_eq_mod flip: of_nat_mult of_nat_diff)

lemma c_mod_dvd: "a mod 64 = 0 \<Longrightarrow> c_mod a 64 = 0"
proof -
  assume "a mod 64 = 0"
  then obtain q where q: "a = 64 * q"
    by (auto simp add: mod_eq_0_iff_dvd elim: dvdE)
  show ?thesis
    unfolding q c_mod_def c_div_def by (simp add: abs_mult sgn_mult mult_sgn_abs)
qed

lemma sint_multiple_le: "sint (i :: cint) mod 64 = 0 \<Longrightarrow> sint i \<le> 2147483584"
proof -
  assume "sint i mod 64 = 0"
  then obtain q where q: "sint i = 64 * q"
    by (auto simp add: mod_eq_0_iff_dvd elim: dvdE)
  have "sint i < 2 ^ 31"
    using sint_lt [of i] by simp
  then have "64 * q \<le> 2147483647"
    unfolding q by simp
  then have "q \<le> 33554431"
    by linarith
  then show ?thesis
    unfolding q by simp
qed

lemma mod_64_wrap: "(y mod 4294967296 - 2147483648) mod 64 = y mod (64 :: int)"
proof -
  have "(y mod 4294967296 - 2147483648) mod 64
      = (y mod 4294967296 mod 64 - 2147483648 mod 64) mod 64"
    by (simp only: mod_diff_eq)
  also have "y mod 4294967296 mod 64 = y mod 64"
    by (rule mod_mod_cancel) simp
  also have "(2147483648 :: int) mod 64 = 0"
    by simp
  finally show ?thesis
    by simp
qed

lemma sint_step:
  "sint (i + word_of_nat sizeof_numbfs_dirent :: cint)
     = (sint i + 64 + 2147483648) mod 4294967296 - 2147483648"
proof -
  have "sint (i + 64) = signed_take_bit 31 (sint i + sint (64 :: cint))"
    by (simp add: sint_word_ariths)
  also have "\<dots> = (sint i + 64 + 2147483648) mod 4294967296 - 2147483648"
    by (simp add: signed_take_bit_eq_take_bit_shift take_bit_eq_mod)
  finally show ?thesis
    by (simp add: sizeof_numbfs_dirent_def NUMBFS_MAX_PATH_LEN_def)
qed

lemma sint_step_mod:
  "sint (i :: cint) mod 64 = 0 \<Longrightarrow> sint (i + word_of_nat sizeof_numbfs_dirent) mod 64 = 0"
proof -
  assume z: "sint i mod 64 = 0"
  have "sint (i + word_of_nat sizeof_numbfs_dirent) mod 64 = (sint i + 64 + 2147483648) mod 64"
    unfolding sint_step by (rule mod_64_wrap)
  also have "\<dots> = (sint i + 2147483712) mod 64"
    by (simp add: add.assoc)
  also have "\<dots> = (sint i mod 64 + 2147483712 mod 64) mod 64"
    by (simp only: mod_add_eq)
  also have "\<dots> = 0"
    unfolding z by simp
  finally show ?thesis .
qed

lemma walk_bound:
  assumes "sint (ni_size ni) \<le> 2147483584" and "n = nat ((sint (ni_size ni) + 63) div 64)"
  shows "n * 64 < 2 ^ 31"
proof -
  have "(sint (ni_size ni) + 63) div 64 \<le> 2147483647 div 64"
    using assms(1) by (intro zdiv_mono1) simp_all
  then have "n \<le> 33554431"
    using assms(2) by simp
  then show ?thesis by simp
qed

lemma dir_loop_done:
  "sint (ni_size ni) \<le> sint i \<Longrightarrow> dir_loop e ni nid i buf d out = Some (0, out, d)"
  by (subst dir_loop.simps) simp

lemma dir_loop_from:
  assumes b: "0 < BYTES_PER_BLOCK e" "BYTES_PER_BLOCK e mod 64 = 0"
    and r: "reads_as e ni blk"
    and s: "sint (ni_size ni) \<le> 2147483584"
  shows "n = nat ((sint (ni_size ni) + 63) div 64) \<Longrightarrow> m = n - k \<Longrightarrow> k \<le> n \<Longrightarrow>
     (k * 64 mod BYTES_PER_BLOCK e \<noteq> 0 \<longrightarrow>
        buf = blk (int (k * 64 div BYTES_PER_BLOCK e * BYTES_PER_BLOCK e))) \<Longrightarrow>
     \<exists>d'. dir_loop e ni nid (word_of_nat (k * 64)) buf d out
       = Some (0, out @ map (dir_record_line (BYTES_PER_BLOCK e) blk) [k..<n], d')"
proof (induction m arbitrary: k buf d out)
  case 0
  then have kn: "k = n" by simp
  have nb: "n * 64 < 2 ^ 31"
    using s "0.prems"(1) by (rule walk_bound)
  have sk: "sint (word_of_nat (k * 64) :: cint) = int (k * 64)"
    using nb unfolding kn by (rule sint_of_nat_32)
  have "sint (ni_size ni) \<le> int (k * 64)"
    using "0.prems"(1) kn by linarith
  then have "dir_loop e ni nid (word_of_nat (k * 64)) buf d out = Some (0, out, d)"
    unfolding sk [symmetric] by (rule dir_loop_done)
  then show ?case
    using kn by simp
next
  case (Suc m)
  let ?b = "BYTES_PER_BLOCK e"
  let ?i = "int (k * 64)"
  let ?w = "word_of_nat (k * 64) :: cint"
  have kn: "k < n" and m: "m = n - Suc k" and sn: "Suc k \<le> n"
    using Suc.prems(2) by linarith+
  have nb: "n * 64 < 2 ^ 31"
    using s Suc.prems(1) by (rule walk_bound)
  have "k * 64 < n * 64"
    using kn by simp
  then have "k * 64 < 2 ^ 31"
    using nb by (rule less_trans)
  then have sk: "sint ?w = ?i"
    by (rule sint_of_nat_32)
  have lt: "sint ?w < sint (ni_size ni)"
    unfolding sk using kn Suc.prems(1) by linarith
  have i64: "?w + word_of_nat sizeof_numbfs_dirent = word_of_nat (Suc k * 64)"
    by (simp add: sizeof_numbfs_dirent_def NUMBFS_MAX_PATH_LEN_def)
  have md: "c_mod (sint ?w) (int ?b) = int (k * 64 mod ?b)"
    unfolding sk by (rule c_mod_nat)
  have up: "[k..<n] = k # [Suc k..<n]"
    using kn by (simp add: upt_conv_Cons)
  have nxt: "Suc k * 64 mod ?b \<noteq> 0 \<longrightarrow>
      blk (int (k * 64 div ?b * ?b)) = blk (int (Suc k * 64 div ?b * ?b))"
  proof -
    have e: "Suc k * 64 = k * 64 + 64" by simp
    show ?thesis
      unfolding e using same_block [OF b, of k] by auto
  qed
  show ?case
  proof (cases "k * 64 mod ?b = 0")
    case True
    obtain d' where rd: "numbfs_pread_inode e ni (sint ?w) (int ?b) d = ((0, blk ?i), d')"
      using r unfolding reads_as_def sk by (metis prod.collapse)
    have base: "k * 64 div ?b * ?b = k * 64"
      using True by (metis add.right_neutral div_mult_mod_eq)
    have step: "dir_loop e ni nid ?w buf d out
        = dir_loop e ni nid (word_of_nat (Suc k * 64)) (blk ?i) d' (out @ [dirent_line (blk ?i) 0])"
      using lt True by (subst dir_loop.simps) (simp add: md rd i64 del: of_nat_mult of_nat_Suc)
    have line: "dirent_line (blk ?i) 0 = dir_record_line ?b blk k"
      using True by (simp add: dir_record_line_def base)
    have inv: "Suc k * 64 mod ?b \<noteq> 0 \<longrightarrow> blk ?i = blk (int (Suc k * 64 div ?b * ?b))"
      using nxt base by simp
    have "\<exists>d''. dir_loop e ni nid (word_of_nat (Suc k * 64)) (blk ?i) d' (out @ [dirent_line (blk ?i) 0])
        = Some (0, (out @ [dirent_line (blk ?i) 0]) @ map (dir_record_line ?b blk) [Suc k..<n], d'')"
      by (rule Suc.IH [OF Suc.prems(1) m sn inv])
    then show ?thesis
      unfolding step up line by (simp only: append_assoc append_Cons append_Nil list.map)
  next
    case False
    then have bf: "buf = blk (int (k * 64 div ?b * ?b))"
      using Suc.prems(4) by simp
    have step: "dir_loop e ni nid ?w buf d out
        = dir_loop e ni nid (word_of_nat (Suc k * 64)) buf d (out @ [dirent_line buf (k * 64 mod ?b)])"
      using lt False by (subst dir_loop.simps) (simp add: md i64 del: of_nat_mult of_nat_Suc)
    have line: "dirent_line buf (k * 64 mod ?b) = dir_record_line ?b blk k"
      by (simp add: dir_record_line_def bf)
    have inv: "Suc k * 64 mod ?b \<noteq> 0 \<longrightarrow> buf = blk (int (Suc k * 64 div ?b * ?b))"
      using nxt bf by simp
    have "\<exists>d''. dir_loop e ni nid (word_of_nat (Suc k * 64)) buf d (out @ [dirent_line buf (k * 64 mod ?b)])
        = Some (0, (out @ [dirent_line buf (k * 64 mod ?b)]) @ map (dir_record_line ?b blk) [Suc k..<n], d'')"
      by (rule Suc.IH [OF Suc.prems(1) m sn inv])
    then show ?thesis
      unfolding step up line by (simp only: append_assoc append_Cons append_Nil list.map)
  qed
qed

lemma dir_loop_on:
  assumes ok: "\<forall>off d. fst (fst (numbfs_pread_inode e ni off (int (BYTES_PER_BLOCK e)) d)) = 0"
    and bs: "BYTES_PER_BLOCK e = 64"
    and sz: "2147483584 < sint (ni_size ni)"
    and run: "dir_loop e ni nid i buf d out = Some res"
  shows "sint i mod 64 \<noteq> 0"
proof -
  have "e = e \<and> ni = ni \<and> sint i mod 64 = 0 \<longrightarrow> False"
  proof (rule dir_loop.raw_induct [where P = "\<lambda>e' ni' nid i buf d out res.
        e' = e \<and> ni' = ni \<and> sint i mod 64 = 0 \<longrightarrow> False", OF _ run])
    fix f :: "env \<Rightarrow> numbfs_inode_info \<Rightarrow> int \<Rightarrow> cint \<Rightarrow> byte list \<Rightarrow> device \<Rightarrow> event list
        \<Rightarrow> (int \<times> event list \<times> device) option"
      and e' ni' nid' and i' :: cint and buf' d' out' res'
    assume IH: "\<And>a1 a2 a3 a4 a5 a6 a7 y. f a1 a2 a3 a4 a5 a6 a7 = Some y \<Longrightarrow>
        a1 = e \<and> a2 = ni \<and> sint a4 mod 64 = 0 \<longrightarrow> False"
      and body: "(if sint i' < sint (ni_size ni') then
        (if c_mod (sint i') (int (BYTES_PER_BLOCK e')) = 0 then
           (case numbfs_pread_inode e' ni' (sint i') (int (BYTES_PER_BLOCK e')) d' of
              ((err, buf''), d'') \<Rightarrow>
                if err \<noteq> 0
                then Some (err,
                      out' @ [Err ''error: failed to read block@%d of inode@%d\<newline>''
                               [D (c_div (sint i') (int (BYTES_PER_BLOCK e'))), D nid']],
                      d'')
                else f e' ni' nid' (i' + word_of_nat sizeof_numbfs_dirent) buf'' d''
                       (out' @ [dirent_line buf'' (nat (c_mod (sint i') (int (BYTES_PER_BLOCK e'))))]))
         else if c_mod (sint i') (int (BYTES_PER_BLOCK e')) < 0 then None
         else f e' ni' nid' (i' + word_of_nat sizeof_numbfs_dirent) buf' d'
                (out' @ [dirent_line buf' (nat (c_mod (sint i') (int (BYTES_PER_BLOCK e'))))]))
      else Some (0, out', d')) = Some res'"
    show "e' = e \<and> ni' = ni \<and> sint i' mod 64 = 0 \<longrightarrow> False"
    proof (rule impI)
      assume c: "e' = e \<and> ni' = ni \<and> sint i' mod 64 = 0"
      then have e: "e' = e" and n: "ni' = ni" and z: "sint i' mod 64 = 0"
        by blast+
      have lt: "sint i' < sint (ni_size ni)"
        using sint_multiple_le [OF z] sz by linarith
      have cm: "c_mod (sint i') 64 = 0"
        using z by (rule c_mod_dvd)
      obtain err buf2 d2 where rd:
        "numbfs_pread_inode e ni (sint i') (int (BYTES_PER_BLOCK e)) d' = ((err, buf2), d2)"
        by (metis prod.collapse)
      have "err = 0"
        using ok [THEN spec, THEN spec, of "sint i'" d'] unfolding rd by simp
      with body lt cm rd have "f e ni nid' (i' + word_of_nat sizeof_numbfs_dirent) buf2 d2
          (out' @ [dirent_line buf2 (nat (c_mod (sint i') (int (BYTES_PER_BLOCK e))))]) = Some res'"
        unfolding e n by (simp add: bs)
      then have "e = e \<and> ni = ni \<and> sint (i' + word_of_nat sizeof_numbfs_dirent) mod 64 = 0 \<longrightarrow> False"
        by (rule IH)
      with sint_step_mod [OF z] show False
        by simp
    qed
  qed
  then show ?thesis
    by auto
qed

text \<open>
  C5, as amended. With a block size that is a positive multiple of 64 and reads that succeed,
  the walk of an inode whose size is positive, not a multiple of 64 and at most
  \<open>2^31 - 64\<close> returns 0 after printing the records 0 up to \<open>size div 64\<close>, that is
  \<open>(size + 63) div 64\<close> of them: the last one starts below \<open>size\<close> and ends above it.
  From an offset that has reached the size the walk returns at once, with no read and no
  line.
\<close>

theorem dir_walk_trailing_record:
  assumes "0 < BYTES_PER_BLOCK e" and "BYTES_PER_BLOCK e mod 64 = 0"
    and "reads_as e ni blk"
    and "0 < sint (ni_size ni)" and "sint (ni_size ni) mod 64 \<noteq> 0"
    and "sint (ni_size ni) \<le> 2147483584"
  shows "(\<exists>d'. dir_loop e ni nid 0 buf d out
            = Some (0, out @ map (dir_record_line (BYTES_PER_BLOCK e) blk)
                               [0..<nat (sint (ni_size ni) div 64) + 1], d'))
    \<and> nat (sint (ni_size ni) div 64) + 1 = nat ((sint (ni_size ni) + 63) div 64)
    \<and> int (nat (sint (ni_size ni) div 64)) * 64 < sint (ni_size ni)
    \<and> sint (ni_size ni) < int (nat (sint (ni_size ni) div 64) + 1) * 64
    \<and> (\<forall>i buf' d' out'. sint (ni_size ni) \<le> sint i \<longrightarrow>
          dir_loop e ni nid i buf' d' out' = Some (0, out', d'))"
proof -
  define sz where "sz = sint (ni_size ni)"
  define q where "q = sz div 64"
  define r where "r = sz mod 64"
  have s: "sz = 64 * q + r"
    by (simp add: q_def r_def)
  have r: "0 < r" "r < 64"
    using assms(5) pos_mod_sign [of 64 sz] pos_mod_bound [of 64 sz]
    by (simp_all add: r_def sz_def)
  have q: "0 \<le> q"
    using assms(4) by (simp add: q_def sz_def)
  have "sz + 63 = 64 * (q + 1) + (r - 1)"
    unfolding s by simp
  then have c: "(sz + 63) div 64 = q + 1"
    using r by (intro int_div_pos_eq [where r = "r - 1"]) simp_all
  have n: "nat q + 1 = nat ((sz + 63) div 64)"
    unfolding c using q by simp
  have z: "(word_of_nat (0 * 64) :: cint) = 0"
    by simp
  have "\<exists>d'. dir_loop e ni nid (word_of_nat (0 * 64)) buf d out
        = Some (0, out @ map (dir_record_line (BYTES_PER_BLOCK e) blk)
                           [0..<nat ((sint (ni_size ni) + 63) div 64)], d')"
    by (rule dir_loop_from [OF assms(1,2,3,6) refl refl]) simp_all
  then have w: "\<exists>d'. dir_loop e ni nid 0 buf d out
        = Some (0, out @ map (dir_record_line (BYTES_PER_BLOCK e) blk) [0..<nat q + 1], d')"
    unfolding z n sz_def [symmetric] .
  have l: "int (nat q) * 64 < sz"
    using q r unfolding s by simp
  have u: "sz < int (nat q + 1) * 64"
    using q r unfolding s by simp
  have d: "\<forall>i buf' d' out'. sz \<le> sint i \<longrightarrow> dir_loop e ni nid i buf' d' out' = Some (0, out', d')"
    unfolding sz_def by (simp add: dir_loop_done)
  from w n l u d show ?thesis
    unfolding q_def sz_def by (simp only: simp_thms)
qed

text \<open>
  An instance: a directory of size 100 in blocks of 64 bytes; the second record is cut
  by the size and printed all the same.
\<close>

theorem dir_walk_trailing_record_witness:
  "\<exists>d'. dir_loop (sim_env 64 sbi_small (dir_inode 100) [] (rec_a @ rec_bc)) (dir_inode 100) 0 0 [] [] []
     = Some (0, [Out fmt_dirent [D 1, T ''DIR    '', D 1, S [0x61]],
                 Out fmt_dirent [D 2, T ''REGULAR'', D 2, S [0x62, 0x63]]], d')"
proof -
  let ?e = "sim_env 64 sbi_small (dir_inode 100) [] (rec_a @ rec_bc)"
  let ?blk = "\<lambda>off. take 64 (drop (nat off) (rec_a @ rec_bc))"
  have bs: "BYTES_PER_BLOCK ?e = 64" and sz: "sint (ni_size (dir_inode 100)) = 100"
    by (simp_all add: sim_env_def dir_inode_def)
  have h1: "0 < BYTES_PER_BLOCK ?e" and h2: "BYTES_PER_BLOCK ?e mod 64 = 0"
    unfolding bs by simp_all
  have h3: "reads_as ?e (dir_inode 100) ?blk"
    by (simp add: reads_as_def sim_env_def)
  have h4: "0 < sint (ni_size (dir_inode 100))"
    and h5: "sint (ni_size (dir_inode 100)) mod 64 \<noteq> 0"
    and h6: "sint (ni_size (dir_inode 100)) \<le> 2147483584"
    unfolding sz by simp_all
  have l: "length rec_a = 64" "length rec_bc = 64"
    by (simp_all add: rec_a_def rec_bc_def)
  have a: "dir_record_line 64 ?blk 0 = Out fmt_dirent [D 1, T ''DIR    '', D 1, S [0x61]]"
    unfolding dir_record_line_def by (simp add: l)
      (simp add: dirent_line_def dirent_at_def rec_a_def cstring_def le16_to_cpu_def
        numbfs_dir_type_def DT_DIR_def DT_LNK_def NUMBFS_MAX_PATH_LEN_def nth_append)
  have b: "dir_record_line 64 ?blk 1 = Out fmt_dirent [D 2, T ''REGULAR'', D 2, S [0x62, 0x63]]"
    unfolding dir_record_line_def by (simp add: l)
      (simp add: dirent_line_def dirent_at_def rec_bc_def cstring_def le16_to_cpu_def
        numbfs_dir_type_def DT_DIR_def DT_LNK_def NUMBFS_MAX_PATH_LEN_def nth_append)
  have u: "[0..<nat (100 div 64) + 1] = [0, 1]"
    by (simp add: upt_rec)
  have "\<exists>d'. dir_loop ?e (dir_inode 100) 0 0 [] [] []
      = Some (0, [] @ map (dir_record_line 64 ?blk) [0, 1], d')"
    using dir_walk_trailing_record [OF h1 h2 h3 h4 h5 h6, of 0 "[]" "[]" "[]", THEN conjunct1]
    unfolding bs sz u .
  then show ?thesis
    by (simp only: list.map a b append_Nil)
qed

text \<open>
  C5 as stated fails for the sizes from 2147483585 on: no multiple of 64 that an \<open>int\<close> holds
  reaches them. For the size 2147483647 the counter steps from 2147483584 to \<open>-2^31\<close> and
  the walk, whose reads all succeed, does not return.
\<close>

theorem dir_walk_counter_wraps:
  "sint (ni_size (dir_inode 2147483647)) mod 64 = 63
   \<and> sint (2147483584 + word_of_nat sizeof_numbfs_dirent :: cint) = - 2147483648
   \<and> dir_loop (sim_env 64 sbi_small (dir_inode 2147483647) [] (rec_a @ rec_bc))
        (dir_inode 2147483647) 0 0 [] [] [] = None"
proof -
  let ?ni = "dir_inode 2147483647"
  let ?e = "sim_env 64 sbi_small ?ni [] (rec_a @ rec_bc)"
  have sz: "sint (ni_size ?ni) = 2147483647"
    by (simp add: dir_inode_def)
  have ok: "\<forall>off d. fst (fst (numbfs_pread_inode ?e ?ni off (int (BYTES_PER_BLOCK ?e)) d)) = 0"
    and bs: "BYTES_PER_BLOCK ?e = 64"
    by (simp_all add: sim_env_def)
  have lt: "2147483584 < sint (ni_size ?ni)"
    unfolding sz by simp
  have n: "dir_loop ?e ?ni 0 0 [] [] [] = None"
  proof (cases "dir_loop ?e ?ni 0 0 [] [] []")
    case None
    then show ?thesis .
  next
    case (Some res)
    have "sint (0 :: cint) mod 64 \<noteq> 0"
      using ok bs lt Some by (rule dir_loop_on)
    then show ?thesis
      by simp
  qed
  have w: "sint (2147483584 + word_of_nat sizeof_numbfs_dirent :: cint) = - 2147483648"
    by (simp add: sizeof_numbfs_dirent_def NUMBFS_MAX_PATH_LEN_def)
  have m: "sint (ni_size ?ni) mod 64 = 63"
    unfolding sz by simp
  from m w n show ?thesis
    by (simp only: simp_thms)
qed

lemma le16_roundtrip: "le16_to_cpu (ucast w) (ucast (drop_bit 8 w)) = (w :: 16 word)"
  by (rule bit_word_eqI) (auto simp add: le16_to_cpu_def bit_simps)

lemma length_dirent_bytes:
  "length (de_name de) = NUMBFS_MAX_PATH_LEN \<Longrightarrow> length (dirent_bytes de) = 64"
  by (simp add: dirent_bytes_def cpu_to_le16_def NUMBFS_MAX_PATH_LEN_def)

lemma concat_window:
  "\<forall>x \<in> set xs. length x = n \<Longrightarrow> k < length xs \<Longrightarrow>
     take n (drop (k * n) (concat xs)) = xs ! k"
proof (induction xs arbitrary: k)
  case Nil
  then show ?case by simp
next
  case (Cons x xs)
  show ?case
  proof (cases k)
    case 0
    with Cons.prems show ?thesis by simp
  next
    case (Suc j)
    with Cons.prems Cons.IH [of j] show ?thesis by simp
  qed
qed

lemma length_concat_same:
  "\<forall>x \<in> set xs. length x = n \<Longrightarrow> length (concat xs) = length xs * n"
  by (induction xs) simp_all

lemma take_drop_take:
  "n + o' \<le> l \<Longrightarrow> take n (drop o' (take l xs)) = take n (drop o' xs)"
  by (simp add: drop_take min_def)

lemma cstring_prefix:
  "0 \<in> set (take n xs) \<Longrightarrow> cstring xs = S (takeWhile (\<lambda>b. b \<noteq> 0) (take n xs))"
proof -
  assume z: "0 \<in> set (take n xs)"
  have "takeWhile (\<lambda>b. b \<noteq> 0) (take n xs @ drop n xs) = takeWhile (\<lambda>b. b \<noteq> 0) (take n xs)"
    using z by (intro takeWhile_append1 [where x = 0]) simp_all
  moreover have "0 \<in> set xs"
    using z by (rule in_set_takeD)
  ultimately show ?thesis
    by (simp add: cstring_def)
qed


lemma takeWhile_all_prefix:
  "m \<le> length xs \<Longrightarrow> \<forall>x \<in> set (take m xs). P x \<Longrightarrow> take m (takeWhile P xs) = take m xs"
proof (induction xs arbitrary: m)
  case Nil
  then show ?case by simp
next
  case (Cons x xs)
  then show ?case by (cases m) auto
qed

text \<open>
  C10, as amended. When the 60-byte name buffer of a record holds a NUL byte, the name
  printed for it is the buffer up to its first NUL, whatever \<open>name_len\<close> says; so for a
  record whose first \<open>name_len + 1\<close> name bytes are all other than NUL the printed name
  starts with these bytes and is longer than \<open>name_len\<close>.
\<close>

theorem dirent_name_not_truncated:
  assumes "0 \<in> set (de_name (dirent_at buf off))"
    and "printed = takeWhile (\<lambda>b. b \<noteq> 0) (de_name (dirent_at buf off))"
    and "nl = unat (de_name_len (dirent_at buf off))"
  shows "dirent_line buf off =
           Out fmt_dirent
             [D (uint (de_ino (dirent_at buf off))),
              T (numbfs_dir_type (uint (de_type (dirent_at buf off)))),
              D (int nl),
              S printed]
    \<and> (nl < NUMBFS_MAX_PATH_LEN \<and> 0 \<notin> set (take (nl + 1) (de_name (dirent_at buf off)))
          \<longrightarrow> nl < length printed
              \<and> take (nl + 1) printed = take (nl + 1) (de_name (dirent_at buf off)))"
proof (rule conjI)
  have n: "de_name (dirent_at buf off) = take NUMBFS_MAX_PATH_LEN (drop (off + 2) buf)"
    by (simp add: dirent_at_def)
  show "dirent_line buf off =
           Out fmt_dirent
             [D (uint (de_ino (dirent_at buf off))),
              T (numbfs_dir_type (uint (de_type (dirent_at buf off)))),
              D (int nl),
              S printed]"
    using assms(1) unfolding dirent_line_def assms(2,3) n
    by (simp add: cstring_prefix)
next
  let ?name = "de_name (dirent_at buf off)"
  show "nl < NUMBFS_MAX_PATH_LEN \<and> 0 \<notin> set (take (nl + 1) ?name)
          \<longrightarrow> nl < length printed \<and> take (nl + 1) printed = take (nl + 1) ?name"
  proof (rule impI)
  assume a: "nl < NUMBFS_MAX_PATH_LEN \<and> 0 \<notin> set (take (nl + 1) ?name)"
  have "length ?name \<le> NUMBFS_MAX_PATH_LEN"
    by (simp add: dirent_at_def)
  have "nl + 1 \<le> length ?name"
  proof (rule ccontr)
    assume "\<not> nl + 1 \<le> length ?name"
    then have "take (nl + 1) ?name = ?name" by simp
    with a assms(1) show False by simp
  qed
  moreover have "\<forall>x \<in> set (take (nl + 1) ?name). x \<noteq> 0"
    using a by auto
  ultimately have t: "take (nl + 1) printed = take (nl + 1) ?name"
    unfolding assms(2) by (rule takeWhile_all_prefix)
  then have "length (take (nl + 1) printed) = nl + 1"
    using \<open>nl + 1 \<le> length ?name\<close> by simp
  then have "nl < length printed" by simp
  with t show "nl < length printed \<and> take (nl + 1) printed = take (nl + 1) ?name"
    by simp
  qed
qed


lemma takeWhile_replicate_append:
  "P x \<Longrightarrow> takeWhile P (replicate n x @ ys) = replicate n x @ takeWhile P ys"
  by (induction n) simp_all

lemmas dirent_eval = dirent_line_def dirent_at_def cstring_def le16_to_cpu_def
  numbfs_dir_type_def DT_DIR_def DT_LNK_def NUMBFS_MAX_PATH_LEN_def nth_append
  takeWhile_replicate_append

text \<open>
  An instance: the record \<open>hello\<close> with the name length 2 is printed as \<open>hello\<close>.
\<close>

theorem dirent_name_not_truncated_witness:
  "dirent_line rec_hello 0
     = Out fmt_dirent [D 7, T ''REGULAR'', D 2, S [0x68, 0x65, 0x6C, 0x6C, 0x6F]]
   \<and> 2 < length [0x68, 0x65, 0x6C, 0x6C, 0x6F :: byte]
   \<and> take 3 [0x68, 0x65, 0x6C, 0x6C, 0x6F :: byte] = [0x68, 0x65, 0x6C]"
proof -
  have n: "de_name (dirent_at rec_hello 0) = [0x68, 0x65, 0x6C, 0x6C, 0x6F] @ replicate 55 0"
    by (simp add: dirent_at_def rec_hello_def NUMBFS_MAX_PATH_LEN_def)
  have h: "de_name_len (dirent_at rec_hello 0) = 2" "de_type (dirent_at rec_hello 0) = 8"
    "de_ino (dirent_at rec_hello 0) = 7"
    by (simp_all add: dirent_at_def rec_hello_def le16_to_cpu_def nth_append)
  have p: "takeWhile (\<lambda>b. b \<noteq> 0) (de_name (dirent_at rec_hello 0)) = [0x68, 0x65, 0x6C, 0x6C, 0x6F]"
    unfolding n by simp
  have a1: "0 \<in> set (de_name (dirent_at rec_hello 0))"
    unfolding n by simp
  have a2: "[0x68, 0x65, 0x6C, 0x6C, 0x6F] = takeWhile (\<lambda>b. b \<noteq> 0) (de_name (dirent_at rec_hello 0))"
    unfolding p by (rule refl)
  have a3: "2 = unat (de_name_len (dirent_at rec_hello 0))"
    unfolding h by simp
  have a4: "2 < NUMBFS_MAX_PATH_LEN \<and> 0 \<notin> set (take (2 + 1) (de_name (dirent_at rec_hello 0)))"
    unfolding n by (simp add: NUMBFS_MAX_PATH_LEN_def)
  have t: "numbfs_dir_type (uint (8 :: byte)) = ''REGULAR''"
    by (simp add: numbfs_dir_type_def DT_DIR_def DT_LNK_def)
  note r = dirent_name_not_truncated [OF a1 a2 a3]
  from r have "dirent_line rec_hello 0
      = Out fmt_dirent [D 7, T ''REGULAR'', D 2, S [0x68, 0x65, 0x6C, 0x6C, 0x6F]]"
    unfolding h t by simp
  moreover from r a4 have "2 < length [0x68, 0x65, 0x6C, 0x6C, 0x6F :: byte]"
    by blast
  ultimately show ?thesis by simp
qed

text \<open>
  C10 as stated fails for a name that fills its buffer: no NUL lies in the 60 bytes, and
  the bytes printed after them are those of the inode number and of the next record.
\<close>

theorem dirent_name_overrun:
  "dirent_line (rec_full 2 1 @ rec_abcd) 0
     = Out fmt_dirent
         [D 258, T ''REGULAR'', D 60,
          S (replicate 60 0x78 @ [2, 1, 3, 8, 0x61, 0x62, 0x63, 0x64])]
   \<and> takeWhile (\<lambda>b. b \<noteq> 0) (de_name (dirent_at (rec_full 2 1 @ rec_abcd) 0)) = replicate 60 0x78"
  by (simp add: dirent_eval rec_full_def rec_abcd_def)


lemma dirent_line_of_window:
  assumes w: "take 64 (drop off buf) = dirent_bytes de"
    and wf: "wf_dirent de" and nt: "nul_terminated de"
  shows "dirent_line buf off = entry_line de"
proof -
  let ?nl = "unat (de_name_len de)"
  have ln: "length (de_name de) = 60"
    using wf by (simp add: wf_dirent_def NUMBFS_MAX_PATH_LEN_def)
  have d: "drop off buf = dirent_bytes de @ drop (off + 64) buf"
    using append_take_drop_id [of 64 "drop off buf"] unfolding w by (simp add: add.commute)
  have lb: "off + 64 \<le> length buf"
  proof -
    have "length (take 64 (drop off buf)) = 64"
      unfolding w using ln by (simp add: length_dirent_bytes NUMBFS_MAX_PATH_LEN_def)
    then show ?thesis by simp
  qed
  have at: "buf ! (off + i) = (dirent_bytes de @ drop (off + 64) buf) ! i" for i
    using lb by (simp add: d [symmetric])
  have b0: "buf ! off = de_name_len de"
    using at [of 0] by (simp add: dirent_bytes_def)
  have b1: "buf ! (off + 1) = de_type de"
    using at [of 1] by (simp add: dirent_bytes_def)
  have b62: "buf ! (off + 62) = ucast (de_ino de)"
    using at [of 62] ln by (simp add: dirent_bytes_def cpu_to_le16_def nth_append)
  have b63: "buf ! (off + 63) = ucast (drop_bit 8 (de_ino de))"
    using at [of 63] ln by (simp add: dirent_bytes_def cpu_to_le16_def nth_append)
  have tl: "drop (off + 2) buf = de_name de @ cpu_to_le16 (de_ino de) @ drop (off + 64) buf"
  proof -
    have "drop (off + 2) buf = drop 2 (drop off buf)"
      by (simp add: add.commute)
    also have "\<dots> = de_name de @ cpu_to_le16 (de_ino de) @ drop (off + 64) buf"
      unfolding d by (simp add: dirent_bytes_def)
    finally show ?thesis .
  qed
  have nm: "de_name de = take ?nl (de_name de) @ 0 # drop (Suc ?nl) (de_name de)"
    using nt ln unfolding nul_terminated_def NUMBFS_MAX_PATH_LEN_def
    by (metis id_take_nth_drop)
  have cs: "cstring (drop (off + 2) buf) = S (take ?nl (de_name de))"
  proof -
    have e: "drop (off + 2) buf = take ?nl (de_name de)
        @ 0 # (drop (Suc ?nl) (de_name de) @ cpu_to_le16 (de_ino de) @ drop (off + 64) buf)"
      unfolding tl by (subst nm) simp
    have z: "0 \<notin> set (take ?nl (de_name de))"
      using nt by (simp add: nul_terminated_def)
    show ?thesis
      unfolding e by (rule cstring_terminated [OF z])
  qed
  have at_eq: "dirent_at buf off = de"
    unfolding dirent_at_def b0 b1 b62 b63 le16_roundtrip tl
    using ln by (simp add: NUMBFS_MAX_PATH_LEN_def)
  show ?thesis
    unfolding dirent_line_def at_eq cs entry_line_def by (rule refl)
qed

lemma block_window:
  assumes b: "0 < bpb" "bpb mod 64 = 0"
    and h: "holds_content bpb blk content"
    and k: "k * 64 + 64 \<le> length content"
  shows "take 64 (drop (k * 64 mod bpb) (blk (int (k * 64 div bpb * bpb))))
           = take 64 (drop (k * 64) content)"
proof -
  let ?j = "k * 64 div bpb"
  let ?o = "k * 64 mod bpb"
  have s: "?j * bpb + ?o = k * 64"
    by simp
  from b(2) have "64 dvd bpb"
    by (simp add: mod_0_imp_dvd)
  then obtain c where c: "bpb = 64 * c"
    by (auto elim: dvdE)
  have "0 < c" using b(1) c by simp
  have "?o = 64 * (k mod c)"
    unfolding c by (simp add: mult.commute mult_mod_right)
  moreover have "Suc (k mod c) \<le> c"
    using \<open>0 < c\<close> by (simp add: Suc_leI)
  ultimately have ob: "?o + 64 \<le> bpb"
    unfolding c by simp
  have jl: "?j * bpb < length content"
    using k s by linarith
  have ol: "64 + ?o \<le> length content - ?j * bpb"
    using k s by linarith
  from h jl have l: "length (blk (int (?j * bpb))) = bpb"
    and t: "take (length content - ?j * bpb) (blk (int (?j * bpb))) = take bpb (drop (?j * bpb) content)"
    unfolding holds_content_def by blast+
  have "take 64 (drop ?o (blk (int (?j * bpb))))
      = take 64 (drop ?o (take (length content - ?j * bpb) (blk (int (?j * bpb)))))"
    using ol by (simp only: take_drop_take)
  also have "\<dots> = take 64 (drop ?o (take bpb (drop (?j * bpb) content)))"
    unfolding t by (rule refl)
  also have "\<dots> = take 64 (drop ?o (drop (?j * bpb) content))"
    using ob by (intro take_drop_take) (simp add: add.commute)
  also have "\<dots> = take 64 (drop (k * 64) content)"
    by (simp only: drop_drop s add.commute [of ?o])
  finally show ?thesis .
qed


text \<open>
  C3, as amended. For a directory of \<open>n\<close> records of 64 bytes, each with a name shorter
  than its buffer, without NUL and followed by a NUL byte, and of size \<open>64 n\<close>, the walk
  returns 0 and prints exactly \<open>n\<close> lines, in storage order, each with the stored inode
  number, the stored type (printed as DIR, SYMLINK or REGULAR), the stored name length and
  the stored name.
\<close>

theorem dir_walk_reproduces_entries:
  assumes "0 < BYTES_PER_BLOCK e" and "BYTES_PER_BLOCK e mod 64 = 0"
    and "reads_as e ni blk"
    and "holds_content (BYTES_PER_BLOCK e) blk (concat (map dirent_bytes entries))"
    and "sint (ni_size ni) = int (length entries * 64)"
    and "\<forall>de \<in> set entries. wf_dirent de \<and> nul_terminated de"
  shows "\<exists>d'. dir_loop e ni nid 0 buf d [] = Some (0, map entry_line entries, d')"
proof -
  let ?b = "BYTES_PER_BLOCK e"
  let ?content = "concat (map dirent_bytes entries)"
  have l64: "\<forall>x \<in> set (map dirent_bytes entries). length x = 64"
    using assms(6) by (auto simp add: wf_dirent_def length_dirent_bytes)
  have lc: "length ?content = length entries * 64"
    using length_concat_same [OF l64] by simp
  have "sint (ni_size ni) mod 64 = 0"
    unfolding assms(5) by simp
  then have sb: "sint (ni_size ni) \<le> 2147483584"
    by (rule sint_multiple_le)
  have n: "nat ((sint (ni_size ni) + 63) div 64) = length entries"
  proof -
    have "sint (ni_size ni) + 63 = 64 * int (length entries) + 63"
      unfolding assms(5) by simp
    then have "(sint (ni_size ni) + 63) div 64 = int (length entries)"
      by (intro int_div_pos_eq [where r = 63]) simp_all
    then show ?thesis by simp
  qed
  have rec: "dir_record_line ?b blk k = entry_line (entries ! k)" if k: "k < length entries" for k
  proof -
    have "k * 64 + 64 \<le> length ?content"
      unfolding lc using k by simp
    then have "take 64 (drop (k * 64 mod ?b) (blk (int (k * 64 div ?b * ?b))))
        = take 64 (drop (k * 64) ?content)"
      by (rule block_window [OF assms(1,2,4)])
    also have "\<dots> = map dirent_bytes entries ! k"
      using concat_window [OF l64, of k] k by simp
    also have "\<dots> = dirent_bytes (entries ! k)"
      using k by simp
    finally have w: "take 64 (drop (k * 64 mod ?b) (blk (int (k * 64 div ?b * ?b))))
        = dirent_bytes (entries ! k)" .
    have "entries ! k \<in> set entries"
      using k by simp
    with assms(6) have "wf_dirent (entries ! k)" and "nul_terminated (entries ! k)"
      by blast+
    with w show ?thesis
      unfolding dir_record_line_def by (rule dirent_line_of_window)
  qed
  have m: "map (dir_record_line ?b blk) [0..<length entries] = map entry_line entries"
    by (rule nth_equalityI) (simp_all add: rec)
  have z: "(word_of_nat (0 * 64) :: cint) = 0"
    by simp
  have "\<exists>d'. dir_loop e ni nid (word_of_nat (0 * 64)) buf d []
      = Some (0, [] @ map (dir_record_line ?b blk) [0..<nat ((sint (ni_size ni) + 63) div 64)], d')"
    by (rule dir_loop_from [OF assms(1,2,3) sb refl refl]) simp_all
  then show ?thesis
    unfolding z n m by (simp only: append_Nil)
qed

text \<open>
  An instance: the directory of the records \<open>a\<close> and \<open>bc\<close> in one block of 128 bytes.
\<close>

theorem dir_walk_reproduces_entries_witness:
  "\<exists>d'. dir_loop (sim_env 128 sbi_small (dir_inode 128) [] (rec_a @ rec_bc)) (dir_inode 128) 0 0 [] [] []
     = Some (0, [Out fmt_dirent [D 1, T ''DIR    '', D 1, S [0x61]],
                 Out fmt_dirent [D 2, T ''REGULAR'', D 2, S [0x62, 0x63]]], d')"
proof -
  let ?e = "sim_env 128 sbi_small (dir_inode 128) [] (rec_a @ rec_bc)"
  let ?blk = "\<lambda>off. take 128 (drop (nat off) (rec_a @ rec_bc))"
  have bs: "BYTES_PER_BLOCK ?e = 128"
    by (simp add: sim_env_def)
  have c: "concat (map dirent_bytes [de_a, de_bc]) = rec_a @ rec_bc"
    by (simp add: dirent_bytes_def de_a_def de_bc_def rec_a_def rec_bc_def cpu_to_le16_def)
  have h1: "0 < BYTES_PER_BLOCK ?e" and h2: "BYTES_PER_BLOCK ?e mod 64 = 0"
    unfolding bs by simp_all
  have h3: "reads_as ?e (dir_inode 128) ?blk"
    by (simp add: reads_as_def sim_env_def)
  have h4: "holds_content (BYTES_PER_BLOCK ?e) ?blk (concat (map dirent_bytes [de_a, de_bc]))"
    unfolding bs c holds_content_def by (simp add: rec_a_def rec_bc_def)
  have h5: "sint (ni_size (dir_inode 128)) = int (length [de_a, de_bc] * 64)"
    by (simp add: dir_inode_def)
  have h6: "\<forall>de \<in> set [de_a, de_bc]. wf_dirent de \<and> nul_terminated de"
    by (simp add: wf_dirent_def nul_terminated_def de_a_def de_bc_def NUMBFS_MAX_PATH_LEN_def nth_append)
  have l: "map entry_line [de_a, de_bc]
      = [Out fmt_dirent [D 1, T ''DIR    '', D 1, S [0x61]],
         Out fmt_dirent [D 2, T ''REGULAR'', D 2, S [0x62, 0x63]]]"
    by (simp add: entry_line_def de_a_def de_bc_def numbfs_dir_type_def DT_DIR_def DT_LNK_def)
  show ?thesis
    using dir_walk_reproduces_entries [OF h1 h2 h3 h4 h5 h6, of 0 "[]" "[]"]
    unfolding l .
qed


text \<open>
  C3 as stated fails on records the data model admits. In the directory of two records
  below the first holds the name \<open>abc\<close> (name length 3) with the byte \<open>d\<close> after it in
  the buffer, the second a name of 60 bytes \<open>x\<close> with the inode number 1: the names
  printed are \<open>abcd\<close> and the 60 bytes followed by the byte 1.
\<close>

theorem dir_walk_name_counterexample:
  "wf_dirent (dirent_at (rec_abcd @ rec_full 1 0) 0)
   \<and> wf_dirent (dirent_at (rec_abcd @ rec_full 1 0) 64)
   \<and> (\<exists>d'. dir_loop (sim_env 64 sbi_small (dir_inode 128) [] (rec_abcd @ rec_full 1 0))
                  (dir_inode 128) 0 0 [] [] []
      = Some (0, [Out fmt_dirent [D 2, T ''REGULAR'', D 3, S [0x61, 0x62, 0x63, 0x64]],
                  Out fmt_dirent [D 1, T ''REGULAR'', D 60, S (replicate 60 0x78 @ [1])]], d'))
   \<and> map entry_line [dirent_at (rec_abcd @ rec_full 1 0) 0, dirent_at (rec_abcd @ rec_full 1 0) 64]
      = [Out fmt_dirent [D 2, T ''REGULAR'', D 3, S [0x61, 0x62, 0x63]],
         Out fmt_dirent [D 1, T ''REGULAR'', D 60, S (replicate 60 0x78)]]"
proof -
  let ?c = "rec_abcd @ rec_full 1 0"
  let ?e = "sim_env 64 sbi_small (dir_inode 128) [] ?c"
  let ?blk = "\<lambda>off. take 64 (drop (nat off) ?c)"
  have bs: "BYTES_PER_BLOCK ?e = 64"
    by (simp add: sim_env_def)
  have l: "length rec_abcd = 64" "length (rec_full 1 0) = 64"
    by (simp_all add: rec_abcd_def rec_full_def)
  have h1: "0 < BYTES_PER_BLOCK ?e" and h2: "BYTES_PER_BLOCK ?e mod 64 = 0"
    unfolding bs by simp_all
  have h3: "reads_as ?e (dir_inode 128) ?blk"
    by (simp add: reads_as_def sim_env_def)
  have h4: "sint (ni_size (dir_inode 128)) \<le> 2147483584"
    by (simp add: dir_inode_def)
  have n: "nat ((sint (ni_size (dir_inode 128)) + 63) div 64) = 2"
    by (simp add: dir_inode_def)
  have u: "[0..<2] = [0, 1]"
    by (simp add: upt_rec)
  have r0: "dir_record_line 64 ?blk 0
      = Out fmt_dirent [D 2, T ''REGULAR'', D 3, S [0x61, 0x62, 0x63, 0x64]]"
    unfolding dir_record_line_def by (simp add: l) (simp add: dirent_eval rec_abcd_def)
  have r1: "dir_record_line 64 ?blk 1
      = Out fmt_dirent [D 1, T ''REGULAR'', D 60, S (replicate 60 0x78 @ [1])]"
    unfolding dir_record_line_def by (simp add: l) (simp add: dirent_eval rec_full_def)
  have z: "(word_of_nat (0 * 64) :: cint) = 0"
    by simp
  have "\<exists>d'. dir_loop ?e (dir_inode 128) 0 (word_of_nat (0 * 64)) [] [] []
      = Some (0, [] @ map (dir_record_line (BYTES_PER_BLOCK ?e) ?blk)
                 [0..<nat ((sint (ni_size (dir_inode 128)) + 63) div 64)], d')"
    by (rule dir_loop_from [OF h1 h2 h3 h4 refl refl]) simp_all
  then have w: "\<exists>d'. dir_loop ?e (dir_inode 128) 0 0 [] [] []
      = Some (0, [Out fmt_dirent [D 2, T ''REGULAR'', D 3, S [0x61, 0x62, 0x63, 0x64]],
                  Out fmt_dirent [D 1, T ''REGULAR'', D 60, S (replicate 60 0x78 @ [1])]], d')"
    unfolding z bs n u by (simp only: list.map append_Nil r0 r1)
  have a0: "dirent_at ?c 0
      = \<lparr> de_name_len = 3, de_type = 8, de_name = [0x61, 0x62, 0x63, 0x64] @ replicate 56 0,
          de_ino = 2 \<rparr>"
    by (simp add: dirent_at_def rec_abcd_def rec_full_def le16_to_cpu_def
        NUMBFS_MAX_PATH_LEN_def nth_append)
  have a1: "dirent_at ?c 64
      = \<lparr> de_name_len = 60, de_type = 8, de_name = replicate 60 0x78, de_ino = 1 \<rparr>"
    by (simp add: dirent_at_def l nth_append) (simp add: rec_full_def le16_to_cpu_def
        NUMBFS_MAX_PATH_LEN_def nth_append)
  have t: "numbfs_dir_type (uint (8 :: byte)) = ''REGULAR''"
    by (simp add: numbfs_dir_type_def DT_DIR_def DT_LNK_def)
  have wf: "wf_dirent (dirent_at ?c 0)" "wf_dirent (dirent_at ?c 64)"
    unfolding a0 a1 by (simp_all add: wf_dirent_def NUMBFS_MAX_PATH_LEN_def)
  have el: "map entry_line [dirent_at ?c 0, dirent_at ?c 64]
      = [Out fmt_dirent [D 2, T ''REGULAR'', D 3, S [0x61, 0x62, 0x63]],
         Out fmt_dirent [D 1, T ''REGULAR'', D 60, S (replicate 60 0x78)]]"
    unfolding a0 a1 by (simp add: entry_line_def numbfs_dir_type_def DT_DIR_def DT_LNK_def)
  from wf w el show ?thesis
    by (simp only: simp_thms)
qed

section \<open>The sections of a run\<close>

lemma fsck_zone_ok:
  "zone_ok bpb d start stop n_total n_free \<Longrightarrow>
     fsck_zone bpb d start stop n_total n_free fmt out
       = Inr (out @ [Out fmt [Pct (zone_count bpb d start stop) n_total]])"
  by (auto simp add: zone_ok_def fsck_zone_def zone_count_def BUG_ON_def split: sum.splits)

lemma fsck_zone_mismatch:
  "zone_loop bpb d start stop 0 = Inr cnt \<Longrightarrow> sint cnt \<noteq> n_total - n_free \<Longrightarrow>
     fsck_zone bpb d start stop n_total n_free fmt out = Inl (Halted, out)"
  by (simp add: fsck_zone_def BUG_ON_def)

lemma parse_opts_nid:
  "parse_opts opts cfg = Inr cfg' \<Longrightarrow> cfg_nid cfg < 0 \<Longrightarrow>
     \<forall>v. Opt_n v \<in> set opts \<longrightarrow> v < 0 \<Longrightarrow> cfg_nid cfg' < 0"
proof (induction opts cfg rule: parse_opts.induct)
  case (1 cfg)
  then show ?case by simp
next
  case (2 opts cfg)
  then show ?case by simp
next
  case (3 opts cfg)
  then show ?case by simp
next
  case (4 opts cfg)
  then show ?case by simp
next
  case (5 v opts cfg)
  then show ?case by simp
next
  case (6 a opts cfg)
  then show ?case by simp
qed

lemma parse_args_nid:
  assumes "numbfs_fsck_parse_args e opts rest cfg_init = Inr cfg"
    and "\<forall>v. Opt_n v \<in> set opts \<longrightarrow> v < 0"
  shows "cfg_nid cfg < 0"
proof -
  from assms(1) obtain cfg' where p: "parse_opts opts cfg_init = Inr cfg'"
    and c: "cfg_nid cfg = cfg_nid cfg'"
    by (auto simp add: numbfs_fsck_parse_args_def split: sum.splits list.splits if_splits)
  have "cfg_nid cfg' < 0"
    using p _ assms(2) by (rule parse_opts_nid) (simp add: cfg_init_def)
  with c show ?thesis by simp
qed

lemma parse_args_env:
  "strdup_ok e' = strdup_ok e \<Longrightarrow>
     numbfs_fsck_parse_args e' opts rest cfg = numbfs_fsck_parse_args e opts rest cfg"
  by (simp add: numbfs_fsck_parse_args_def split: sum.splits list.splits)

lemma fsck_run_no_nid:
  assumes n: "cfg_nid cfg < 0"
    and o: "sys_open e (cfg_dev cfg) = None"
    and g: "numbfs_get_superblock e d = ((0, sbi), d1)"
    and zi: "show_inodes cfg \<longrightarrow> zone_ok (BYTES_PER_BLOCK e) d1 (ibitmap_start sbi) (inode_start sbi)
               (total_inodes sbi) (free_inodes sbi)"
    and zb: "show_blocks cfg \<longrightarrow> zone_ok (BYTES_PER_BLOCK e) d1 (bbitmap_start sbi) (data_start sbi)
               (data_blocks sbi) (free_blocks sbi)"
  shows "fsck_run e cfg d
       = Some (Code 0, superblock_lines sbi @ usage_lines (BYTES_PER_BLOCK e) cfg sbi d1, d1)"
proof -
  have i: "fsck_inode_section e cfg sbi d1 out = Some (Code 0, out, d1)" for out
    using n by (simp add: fsck_inode_section_def)
  have b: "fsck_blocks_section e cfg sbi d1 out
      = Some (Code 0, out @ (if show_blocks cfg
          then [Out fmt_blocks_usage
                  [Pct (zone_count (BYTES_PER_BLOCK e) d1 (bbitmap_start sbi) (data_start sbi))
                     (data_blocks sbi)]]
          else []), d1)" for out
    using zb by (simp add: fsck_blocks_section_def fsck_zone_ok i)
  have "fsck_inodes_section e cfg sbi d1 (superblock_lines sbi)
      = Some (Code 0, superblock_lines sbi @ usage_lines (BYTES_PER_BLOCK e) cfg sbi d1, d1)"
    using zi by (simp add: fsck_inodes_section_def fsck_zone_ok b usage_lines_def)
  then show ?thesis
    using o g by (simp add: fsck_run_def)
qed

lemma fsck_run_skips_inode:
  assumes n: "cfg_nid cfg < 0"
    and b: "BYTES_PER_BLOCK e' = BYTES_PER_BLOCK e"
    and o: "sys_open e' = sys_open e"
    and g: "numbfs_get_superblock e' = numbfs_get_superblock e"
  shows "fsck_run e' cfg d = fsck_run e cfg d"
proof -
  have i: "fsck_inode_section e' cfg sbi d1 out = fsck_inode_section e cfg sbi d1 out"
    for sbi d1 out
    using n by (simp add: fsck_inode_section_def)
  have k: "fsck_blocks_section e' cfg sbi d1 out = fsck_blocks_section e cfg sbi d1 out"
    for sbi d1 out
    unfolding fsck_blocks_section_def i b by simp
  have z: "fsck_inodes_section e' cfg sbi d1 out = fsck_inodes_section e cfg sbi d1 out"
    for sbi d1 out
    unfolding fsck_inodes_section_def k b by simp
  show ?thesis
    unfolding fsck_run_def z o g by simp
qed

text \<open>
  C9. When every \<open>--nid\<close> option of the command line (if any) has a negative value, the
  run depends on its environment only through the block size, \<open>strdup\<close>, \<open>open\<close> and
  the superblock read: whatever allocation, inode lookup, block read, positioned read,
  block translation and date formatting would answer, the run is the same, so no inode
  is resolved. If moreover the device opens, the superblock is read and the audits asked for
  succeed, the run exits with status 0 after the superblock lines and the usage lines, and
  prints nothing else.
\<close>

theorem nid_absent_skips_inode:
  assumes "numbfs_fsck_parse_args e opts rest cfg_init = Inr cfg"
    and "\<forall>v. Opt_n v \<in> set opts \<longrightarrow> v < 0"
  shows "(\<forall>e' :: env. BYTES_PER_BLOCK e' = BYTES_PER_BLOCK e \<and> strdup_ok e' = strdup_ok e
              \<and> sys_open e' = sys_open e
              \<and> numbfs_get_superblock e' = numbfs_get_superblock e
            \<longrightarrow> main e' opts rest d = main e opts rest d)
    \<and> (sys_open e (cfg_dev cfg) = None
        \<and> numbfs_get_superblock e d = ((0, sbi), d1)
        \<and> (show_inodes cfg \<longrightarrow> zone_ok (BYTES_PER_BLOCK e) d1 (ibitmap_start sbi) (inode_start sbi)
               (total_inodes sbi) (free_inodes sbi))
        \<and> (show_blocks cfg \<longrightarrow> zone_ok (BYTES_PER_BLOCK e) d1 (bbitmap_start sbi) (data_start sbi)
               (data_blocks sbi) (free_blocks sbi))
        \<longrightarrow> main e opts rest d
              = Some (Exit 0, superblock_lines sbi @ usage_lines (BYTES_PER_BLOCK e) cfg sbi d1, d1))"
proof (rule conjI)
  have n: "cfg_nid cfg < 0"
    using assms by (rule parse_args_nid)
  show "\<forall>e' :: env. BYTES_PER_BLOCK e' = BYTES_PER_BLOCK e \<and> strdup_ok e' = strdup_ok e
              \<and> sys_open e' = sys_open e
              \<and> numbfs_get_superblock e' = numbfs_get_superblock e
            \<longrightarrow> main e' opts rest d = main e opts rest d"
  proof (intro allI impI)
    fix e' :: env
    assume a: "BYTES_PER_BLOCK e' = BYTES_PER_BLOCK e \<and> strdup_ok e' = strdup_ok e
              \<and> sys_open e' = sys_open e
              \<and> numbfs_get_superblock e' = numbfs_get_superblock e"
    have "strdup_ok e' = strdup_ok e"
      using a by simp
    then have "numbfs_fsck_parse_args e' opts rest cfg_init
        = numbfs_fsck_parse_args e opts rest cfg_init"
      by (rule parse_args_env)
    then have "numbfs_fsck_parse_args e' opts rest cfg_init = Inr cfg"
      using assms(1) by simp
    then have "numbfs_fsck e' opts rest d = fsck_run e' cfg d"
      by (simp add: numbfs_fsck_def)
    also have "\<dots> = fsck_run e cfg d"
      using n a by (intro fsck_run_skips_inode) simp_all
    also have "\<dots> = numbfs_fsck e opts rest d"
      using assms(1) by (simp add: numbfs_fsck_def)
    finally show "main e' opts rest d = main e opts rest d"
      by (simp add: main_def)
  qed
  show "sys_open e (cfg_dev cfg) = None
        \<and> numbfs_get_superblock e d = ((0, sbi), d1)
        \<and> (show_inodes cfg \<longrightarrow> zone_ok (BYTES_PER_BLOCK e) d1 (ibitmap_start sbi) (inode_start sbi)
               (total_inodes sbi) (free_inodes sbi))
        \<and> (show_blocks cfg \<longrightarrow> zone_ok (BYTES_PER_BLOCK e) d1 (bbitmap_start sbi) (data_start sbi)
               (data_blocks sbi) (free_blocks sbi))
        \<longrightarrow> main e opts rest d
              = Some (Exit 0, superblock_lines sbi @ usage_lines (BYTES_PER_BLOCK e) cfg sbi d1, d1)"
  proof (rule impI)
    assume a: "sys_open e (cfg_dev cfg) = None
        \<and> numbfs_get_superblock e d = ((0, sbi), d1)
        \<and> (show_inodes cfg \<longrightarrow> zone_ok (BYTES_PER_BLOCK e) d1 (ibitmap_start sbi) (inode_start sbi)
               (total_inodes sbi) (free_inodes sbi))
        \<and> (show_blocks cfg \<longrightarrow> zone_ok (BYTES_PER_BLOCK e) d1 (bbitmap_start sbi) (data_start sbi)
               (data_blocks sbi) (free_blocks sbi))"
    have "fsck_run e cfg d
        = Some (Code 0, superblock_lines sbi @ usage_lines (BYTES_PER_BLOCK e) cfg sbi d1, d1)"
      using n a by (intro fsck_run_no_nid) simp_all
    then show "main e opts rest d
        = Some (Exit 0, superblock_lines sbi @ usage_lines (BYTES_PER_BLOCK e) cfg sbi d1, d1)"
      using assms(1) by (simp add: main_def numbfs_fsck_def)
  qed
qed

lemma zone_inode_bitmap:
  "zone_loop 64 (dev_bitmaps ib bb) 2 3 0 = Inr (of_nat (bits_set ib))"
proof -
  have z: "zone_bytes 64 (dev_bitmaps ib bb) 2 3 = ib # replicate 63 0"
    by (simp add: zone_bytes_def dev_bitmaps_def)
  have b: "bits_set (0 :: byte) = 0"
    by (simp add: bits_set_unfold)
  have "zone_loop 64 (dev_bitmaps ib bb) 2 3 0
      = Inr (0 + of_nat (bits_in (zone_bytes 64 (dev_bitmaps ib bb) (nat 2) (nat 3))))"
    by (rule zone_loop_count) (simp_all add: dev_bitmaps_def)
  then show ?thesis
    by (simp add: z bits_in_def b sum_list_replicate)
qed

lemma zone_block_bitmap:
  "zone_loop 64 (dev_bitmaps ib bb) 4 5 0 = Inr (of_nat (bits_set bb))"
proof -
  have z: "zone_bytes 64 (dev_bitmaps ib bb) 4 5 = bb # replicate 63 0"
    by (simp add: zone_bytes_def dev_bitmaps_def)
  have b: "bits_set (0 :: byte) = 0"
    by (simp add: bits_set_unfold)
  have "zone_loop 64 (dev_bitmaps ib bb) 4 5 0
      = Inr (0 + of_nat (bits_in (zone_bytes 64 (dev_bitmaps ib bb) (nat 4) (nat 5))))"
    by (rule zone_loop_count) (simp_all add: dev_bitmaps_def)
  then show ?thesis
    by (simp add: z bits_in_def b sum_list_replicate)
qed

lemmas world_defs = world_def sim_env_def sbi_small_def

text \<open>
  An instance: a run with \<open>--nid=-3\<close> and both audits in the small world; it is the
  same with an allocation that would fail.
\<close>

theorem nid_absent_skips_inode_witness:
  "main (world\<lparr>malloc_ok := False\<rparr>) [Opt_n (- 3), Opt_i, Opt_b] [''numbfs.img''] (dev_bitmaps 1 3)
     = main world [Opt_n (- 3), Opt_i, Opt_b] [''numbfs.img''] (dev_bitmaps 1 3)
   \<and> main world [Opt_n (- 3), Opt_i, Opt_b] [''numbfs.img''] (dev_bitmaps 1 3)
     = Some (Exit 0,
             superblock_lines sbi_small
               @ [Out fmt_inodes_usage [Pct 1 8], Out fmt_blocks_usage [Pct 2 8]],
             dev_bitmaps 1 3)"
proof -
  let ?cfg = "\<lparr> show_inodes = True, show_blocks = True, cfg_nid = - 3, cfg_dev = ''numbfs.img'' \<rparr>"
  have p: "numbfs_fsck_parse_args world [Opt_n (- 3), Opt_i, Opt_b] [''numbfs.img''] cfg_init = Inr ?cfg"
    by (simp add: numbfs_fsck_parse_args_def cfg_init_def world_defs)
  have n: "\<forall>v. Opt_n v \<in> set [Opt_n (- 3), Opt_i, Opt_b] \<longrightarrow> v < 0"
    by simp
  have c: "zone_count 64 (dev_bitmaps 1 3) 2 3 = 1" "zone_count 64 (dev_bitmaps 1 3) 4 5 = 2"
    by (simp_all add: zone_count_def zone_inode_bitmap zone_block_bitmap bits_set_unfold)
  have k: "zone_ok 64 (dev_bitmaps 1 3) 2 3 8 7" "zone_ok 64 (dev_bitmaps 1 3) 4 5 8 6"
    by (simp_all add: zone_ok_def zone_inode_bitmap zone_block_bitmap bits_set_unfold)
  note t = nid_absent_skips_inode [OF p n, of "dev_bitmaps 1 3" sbi_small "dev_bitmaps 1 3"]
  have u: "usage_lines 64 ?cfg sbi_small (dev_bitmaps 1 3)
      = [Out fmt_inodes_usage [Pct 1 8], Out fmt_blocks_usage [Pct 2 8]]"
    by (simp add: usage_lines_def c sbi_small_def)
  have b: "BYTES_PER_BLOCK world = 64"
    by (simp add: world_defs)
  have h: "sys_open world (cfg_dev ?cfg) = None
      \<and> numbfs_get_superblock world (dev_bitmaps 1 3) = ((0, sbi_small), dev_bitmaps 1 3)
      \<and> (show_inodes ?cfg \<longrightarrow> zone_ok (BYTES_PER_BLOCK world) (dev_bitmaps 1 3)
            (ibitmap_start sbi_small) (inode_start sbi_small)
            (total_inodes sbi_small) (free_inodes sbi_small))
      \<and> (show_blocks ?cfg \<longrightarrow> zone_ok (BYTES_PER_BLOCK world) (dev_bitmaps 1 3)
            (bbitmap_start sbi_small) (data_start sbi_small)
            (data_blocks sbi_small) (free_blocks sbi_small))"
    using k unfolding b by (simp add: world_defs)
  have r1: "main world [Opt_n (- 3), Opt_i, Opt_b] [''numbfs.img''] (dev_bitmaps 1 3)
      = Some (Exit 0, superblock_lines sbi_small @ usage_lines (BYTES_PER_BLOCK world) ?cfg sbi_small
          (dev_bitmaps 1 3), dev_bitmaps 1 3)"
    using t [THEN conjunct2] h by (rule mp)
  have q: "BYTES_PER_BLOCK (world\<lparr>malloc_ok := False\<rparr>) = BYTES_PER_BLOCK world
      \<and> strdup_ok (world\<lparr>malloc_ok := False\<rparr>) = strdup_ok world
      \<and> sys_open (world\<lparr>malloc_ok := False\<rparr>) = sys_open world
      \<and> numbfs_get_superblock (world\<lparr>malloc_ok := False\<rparr>) = numbfs_get_superblock world"
    by simp
  have r2: "main (world\<lparr>malloc_ok := False\<rparr>) [Opt_n (- 3), Opt_i, Opt_b]
        [''numbfs.img''] (dev_bitmaps 1 3)
      = main world [Opt_n (- 3), Opt_i, Opt_b] [''numbfs.img''] (dev_bitmaps 1 3)"
    using t [THEN conjunct1, THEN spec, of "world\<lparr>malloc_ok := False\<rparr>"] q by (rule mp)
  from r1 r2 show ?thesis
    unfolding b u by (simp only: simp_thms)
qed

section \<open>The small world\<close>

lemma world_parse:
  "numbfs_fsck_parse_args world [Opt_i, Opt_b, Opt_n 0] [''numbfs.img''] cfg_init
     = Inr \<lparr> show_inodes = True, show_blocks = True, cfg_nid = 0, cfg_dev = ''numbfs.img'' \<rparr>"
  by (simp add: numbfs_fsck_parse_args_def cfg_init_def world_defs)

lemma world_superblock:
  "sys_open world path = None"
  "numbfs_get_superblock world d = ((0, sbi_small), d)"
  "BYTES_PER_BLOCK world = 64"
  by (simp_all add: world_defs)

lemma sbi_small_fields:
  "ibitmap_start sbi_small = 2" "inode_start sbi_small = 3"
  "bbitmap_start sbi_small = 4" "data_start sbi_small = 5"
  "total_inodes sbi_small = 8" "free_inodes sbi_small = 7"
  "data_blocks sbi_small = 8" "free_blocks sbi_small = 6"
  by (simp_all add: sbi_small_def)

section \<open>Error paths\<close>

text \<open>
  C8. When the allocation and the inode lookup succeed and the read of the attribute
  block fails with \<open>err\<close>, \<open>numbfs_fsck_show_inode\<close> returns \<open>err\<close> and its whole output is
  the one diagnostic on stderr: no line of the report is printed, whatever the inode (also
  one with no attribute). The run then adds its own diagnostic and returns \<open>err\<close>.
\<close>

theorem xattr_read_failure_suppresses_report:
  assumes "malloc_ok e"
    and "numbfs_get_inode e sbi nid d = ((0, ni), d1)"
    and "numbfs_read_block e sbi (numbfs_data_blk e sbi (ni_xattr_start ni)) d1 = ((err, buf), d2)"
    and "err \<noteq> 0"
  shows "numbfs_fsck_show_inode e sbi nid d
           = Some (err, [Err ''error: failed to read xattr block\<newline>'' []], d2)
    \<and> (cfg_nid cfg = nid \<and> 0 \<le> nid \<longrightarrow>
          fsck_inode_section e cfg sbi d out
            = Some (Code err,
                    out @ [Err ''error: failed to read xattr block\<newline>'' [],
                           Err ''error: failed to show inode information\<newline>'' []],
                    d2))"
proof -
  have s: "numbfs_fsck_show_inode e sbi nid d
      = Some (err, [Err ''error: failed to read xattr block\<newline>'' []], d2)"
    using assms by (simp add: numbfs_fsck_show_inode_def)
  then show ?thesis
    using assms(4) by (auto simp add: fsck_inode_section_def)
qed

text \<open>
  An instance: the small world with a block read that fails with -5 (\<open>-EIO\<close>); the
  inode has no attribute.
\<close>

theorem xattr_read_failure_suppresses_report_witness:
  "numbfs_fsck_show_inode (world\<lparr>numbfs_read_block := \<lambda>s b d. ((- 5, []), d)\<rparr>) sbi_small 0
       (dev_bitmaps 1 3)
     = Some (- 5, [Err ''error: failed to read xattr block\<newline>'' []], dev_bitmaps 1 3)
   \<and> ni_xattr_count (dir_inode 128) = 0"
proof -
  let ?e = "world\<lparr>numbfs_read_block := \<lambda>s b d. ((- 5, []), d)\<rparr>"
  have a: "malloc_ok ?e"
    and g: "numbfs_get_inode ?e sbi_small 0 (dev_bitmaps 1 3) = ((0, dir_inode 128), dev_bitmaps 1 3)"
    and b: "numbfs_read_block ?e sbi_small
        (numbfs_data_blk ?e sbi_small (ni_xattr_start (dir_inode 128))) (dev_bitmaps 1 3)
        = ((- 5, []), dev_bitmaps 1 3)"
    by (simp_all add: world_defs)
  have n: "(- 5 :: int) \<noteq> 0"
    by simp
  show ?thesis
    using xattr_read_failure_suppresses_report [OF a g b n, THEN conjunct1]
    by (simp add: dir_inode_def)
qed


text \<open>
  C1, as amended. Of a run that has opened the device and read the superblock. When the
  run audits the inode bitmap and reads all its blocks, the count is compared with the
  superblock's \<open>total - free\<close>: when they agree the usage line is printed and the run
  goes on with the block audit; when they differ the process is halted by the assertion,
  fsck.c having printed the superblock lines and no more: no usage line, and no later
  section is run. The same holds for the block audit, whatever was printed before it: when
  the count agrees the usage line is printed and the run goes on with the inode section;
  when it differs the process is halted with what fsck.c has printed so far. So a run
  whose inode audit, if asked for, agrees and whose block audit differs is halted after
  the superblock lines and the usage line of the inodes.
\<close>

theorem bitmap_mismatch_halts_run:
  assumes "numbfs_fsck_parse_args e opts rest cfg_init = Inr cfg"
    and "sys_open e (cfg_dev cfg) = None"
    and "numbfs_get_superblock e d = ((0, sbi), d1)"
  shows "(\<forall>cnt. show_inodes cfg
            \<and> zone_loop (BYTES_PER_BLOCK e) d1 (ibitmap_start sbi) (inode_start sbi) 0 = Inr cnt \<longrightarrow>
            (sint cnt \<noteq> total_inodes sbi - free_inodes sbi \<longrightarrow>
               main e opts rest d = Some (Halted, superblock_lines sbi, d1))
            \<and> (sint cnt = total_inodes sbi - free_inodes sbi \<longrightarrow>
               fsck_run e cfg d
                 = fsck_blocks_section e cfg sbi d1
                     (superblock_lines sbi
                        @ [Out fmt_inodes_usage [Pct (sint cnt) (total_inodes sbi)]])))
    \<and> (\<forall>c out. show_blocks cfg
            \<and> zone_loop (BYTES_PER_BLOCK e) d1 (bbitmap_start sbi) (data_start sbi) 0 = Inr c \<longrightarrow>
            (sint c \<noteq> data_blocks sbi - free_blocks sbi \<longrightarrow>
               fsck_blocks_section e cfg sbi d1 out = Some (Halted, out, d1))
            \<and> (sint c = data_blocks sbi - free_blocks sbi \<longrightarrow>
               fsck_blocks_section e cfg sbi d1 out
                 = fsck_inode_section e cfg sbi d1
                     (out @ [Out fmt_blocks_usage [Pct (sint c) (data_blocks sbi)]])))
    \<and> (\<forall>c. (show_inodes cfg \<longrightarrow>
               zone_ok (BYTES_PER_BLOCK e) d1 (ibitmap_start sbi) (inode_start sbi)
                 (total_inodes sbi) (free_inodes sbi))
            \<and> show_blocks cfg
            \<and> zone_loop (BYTES_PER_BLOCK e) d1 (bbitmap_start sbi) (data_start sbi) 0 = Inr c
            \<and> sint c \<noteq> data_blocks sbi - free_blocks sbi \<longrightarrow>
            main e opts rest d
              = Some (Halted,
                      superblock_lines sbi
                        @ (if show_inodes cfg
                           then [Out fmt_inodes_usage
                                   [Pct (zone_count (BYTES_PER_BLOCK e) d1
                                           (ibitmap_start sbi) (inode_start sbi))
                                        (total_inodes sbi)]]
                           else []),
                      d1))"
proof -
  have run: "main e opts rest d = Some (Halted, out, d1)"
    if "fsck_inodes_section e cfg sbi d1 (superblock_lines sbi) = Some (Halted, out, d1)" for out
  proof -
    have "fsck_run e cfg d = Some (Halted, out, d1)"
      using assms(2,3) that by (simp add: fsck_run_def)
    then show ?thesis
      using assms(1) by (simp add: main_def numbfs_fsck_def)
  qed
  have blk: "(sint c \<noteq> data_blocks sbi - free_blocks sbi \<longrightarrow>
               fsck_blocks_section e cfg sbi d1 out = Some (Halted, out, d1))
            \<and> (sint c = data_blocks sbi - free_blocks sbi \<longrightarrow>
               fsck_blocks_section e cfg sbi d1 out
                 = fsck_inode_section e cfg sbi d1
                     (out @ [Out fmt_blocks_usage [Pct (sint c) (data_blocks sbi)]]))"
    if s: "show_blocks cfg"
      and z: "zone_loop (BYTES_PER_BLOCK e) d1 (bbitmap_start sbi) (data_start sbi) 0 = Inr c"
    for c out
  proof (intro conjI impI)
    assume m: "sint c \<noteq> data_blocks sbi - free_blocks sbi"
    have "fsck_zone (BYTES_PER_BLOCK e) d1 (bbitmap_start sbi) (data_start sbi)
        (data_blocks sbi) (free_blocks sbi) fmt_blocks_usage out = Inl (Halted, out)"
      using z m by (rule fsck_zone_mismatch)
    with s show "fsck_blocks_section e cfg sbi d1 out = Some (Halted, out, d1)"
      by (simp add: fsck_blocks_section_def)
  next
    assume "sint c = data_blocks sbi - free_blocks sbi"
    then have "fsck_zone (BYTES_PER_BLOCK e) d1 (bbitmap_start sbi) (data_start sbi)
        (data_blocks sbi) (free_blocks sbi) fmt_blocks_usage out
        = Inr (out @ [Out fmt_blocks_usage [Pct (sint c) (data_blocks sbi)]])"
      using z by (simp add: fsck_zone_def BUG_ON_def)
    with s show "fsck_blocks_section e cfg sbi d1 out
        = fsck_inode_section e cfg sbi d1
            (out @ [Out fmt_blocks_usage [Pct (sint c) (data_blocks sbi)]])"
      by (simp add: fsck_blocks_section_def)
  qed
  have ino: "(sint cnt \<noteq> total_inodes sbi - free_inodes sbi \<longrightarrow>
               main e opts rest d = Some (Halted, superblock_lines sbi, d1))
            \<and> (sint cnt = total_inodes sbi - free_inodes sbi \<longrightarrow>
               fsck_run e cfg d
                 = fsck_blocks_section e cfg sbi d1
                     (superblock_lines sbi
                        @ [Out fmt_inodes_usage [Pct (sint cnt) (total_inodes sbi)]]))"
    if s: "show_inodes cfg"
      and z: "zone_loop (BYTES_PER_BLOCK e) d1 (ibitmap_start sbi) (inode_start sbi) 0 = Inr cnt"
    for cnt
  proof (intro conjI impI)
    assume m: "sint cnt \<noteq> total_inodes sbi - free_inodes sbi"
    have "fsck_inodes_section e cfg sbi d1 (superblock_lines sbi)
        = Some (Halted, superblock_lines sbi, d1)"
      using s by (simp add: fsck_inodes_section_def fsck_zone_mismatch [OF z m])
    then show "main e opts rest d = Some (Halted, superblock_lines sbi, d1)"
      by (rule run)
  next
    assume "sint cnt = total_inodes sbi - free_inodes sbi"
    then have "fsck_zone (BYTES_PER_BLOCK e) d1 (ibitmap_start sbi) (inode_start sbi)
        (total_inodes sbi) (free_inodes sbi) fmt_inodes_usage (superblock_lines sbi)
        = Inr (superblock_lines sbi @ [Out fmt_inodes_usage [Pct (sint cnt) (total_inodes sbi)]])"
      using z by (simp add: fsck_zone_def BUG_ON_def)
    then show "fsck_run e cfg d
        = fsck_blocks_section e cfg sbi d1
            (superblock_lines sbi @ [Out fmt_inodes_usage [Pct (sint cnt) (total_inodes sbi)]])"
      using assms(2,3) s by (simp add: fsck_run_def fsck_inodes_section_def)
  qed
  have whole: "main e opts rest d
      = Some (Halted,
              superblock_lines sbi
                @ (if show_inodes cfg
                   then [Out fmt_inodes_usage
                           [Pct (zone_count (BYTES_PER_BLOCK e) d1
                                   (ibitmap_start sbi) (inode_start sbi))
                                (total_inodes sbi)]]
                   else []),
              d1)"
    if k: "show_inodes cfg \<longrightarrow>
               zone_ok (BYTES_PER_BLOCK e) d1 (ibitmap_start sbi) (inode_start sbi)
                 (total_inodes sbi) (free_inodes sbi)"
      and s: "show_blocks cfg"
      and z: "zone_loop (BYTES_PER_BLOCK e) d1 (bbitmap_start sbi) (data_start sbi) 0 = Inr c"
      and m: "sint c \<noteq> data_blocks sbi - free_blocks sbi"
    for c
  proof -
    have b: "fsck_blocks_section e cfg sbi d1 out = Some (Halted, out, d1)" for out
      using blk [OF s z, of out] m by simp
    have "fsck_inodes_section e cfg sbi d1 (superblock_lines sbi)
        = Some (Halted,
              superblock_lines sbi
                @ (if show_inodes cfg
                   then [Out fmt_inodes_usage
                           [Pct (zone_count (BYTES_PER_BLOCK e) d1
                                   (ibitmap_start sbi) (inode_start sbi))
                                (total_inodes sbi)]]
                   else []),
              d1)"
      using k by (simp add: fsck_inodes_section_def fsck_zone_ok b)
    then show ?thesis
      by (rule run)
  qed
  show ?thesis
  proof (intro conjI allI impI)
    fix cnt
    assume a: "show_inodes cfg
        \<and> zone_loop (BYTES_PER_BLOCK e) d1 (ibitmap_start sbi) (inode_start sbi) 0 = Inr cnt"
    then have s: "show_inodes cfg"
      and z: "zone_loop (BYTES_PER_BLOCK e) d1 (ibitmap_start sbi) (inode_start sbi) 0 = Inr cnt"
      by blast+
    {
      assume "sint cnt \<noteq> total_inodes sbi - free_inodes sbi"
      then show "main e opts rest d = Some (Halted, superblock_lines sbi, d1)"
        using ino [OF s z] by blast
    }
    {
      assume "sint cnt = total_inodes sbi - free_inodes sbi"
      then show "fsck_run e cfg d
                 = fsck_blocks_section e cfg sbi d1
                     (superblock_lines sbi
                        @ [Out fmt_inodes_usage [Pct (sint cnt) (total_inodes sbi)]])"
        using ino [OF s z] by blast
    }
  next
    fix c out
    assume a: "show_blocks cfg
        \<and> zone_loop (BYTES_PER_BLOCK e) d1 (bbitmap_start sbi) (data_start sbi) 0 = Inr c"
    then have s: "show_blocks cfg"
      and z: "zone_loop (BYTES_PER_BLOCK e) d1 (bbitmap_start sbi) (data_start sbi) 0 = Inr c"
      by blast+
    {
      assume "sint c \<noteq> data_blocks sbi - free_blocks sbi"
      then show "fsck_blocks_section e cfg sbi d1 out = Some (Halted, out, d1)"
        using blk [OF s z, of out] by blast
    }
    {
      assume "sint c = data_blocks sbi - free_blocks sbi"
      then show "fsck_blocks_section e cfg sbi d1 out
                 = fsck_inode_section e cfg sbi d1
                     (out @ [Out fmt_blocks_usage [Pct (sint c) (data_blocks sbi)]])"
        using blk [OF s z, of out] by blast
    }
  next
    fix c
    assume a: "(show_inodes cfg \<longrightarrow>
               zone_ok (BYTES_PER_BLOCK e) d1 (ibitmap_start sbi) (inode_start sbi)
                 (total_inodes sbi) (free_inodes sbi))
            \<and> show_blocks cfg
            \<and> zone_loop (BYTES_PER_BLOCK e) d1 (bbitmap_start sbi) (data_start sbi) 0 = Inr c
            \<and> sint c \<noteq> data_blocks sbi - free_blocks sbi"
    then have k: "show_inodes cfg \<longrightarrow>
               zone_ok (BYTES_PER_BLOCK e) d1 (ibitmap_start sbi) (inode_start sbi)
                 (total_inodes sbi) (free_inodes sbi)"
      and s: "show_blocks cfg"
      and z: "zone_loop (BYTES_PER_BLOCK e) d1 (bbitmap_start sbi) (data_start sbi) 0 = Inr c"
      and m: "sint c \<noteq> data_blocks sbi - free_blocks sbi"
      by blast+
    show "main e opts rest d
              = Some (Halted,
                      superblock_lines sbi
                        @ (if show_inodes cfg
                           then [Out fmt_inodes_usage
                                   [Pct (zone_count (BYTES_PER_BLOCK e) d1
                                           (ibitmap_start sbi) (inode_start sbi))
                                        (total_inodes sbi)]]
                           else []),
                      d1)"
      using k s z m by (rule whole)
  qed
qed

text \<open>
  An instance: an inode bitmap with three set bits where the superblock counts one
  inode in use.
\<close>

theorem bitmap_mismatch_halts_run_witness:
  "main world [Opt_i, Opt_n 0] [''numbfs.img''] (dev_bitmaps 7 3)
     = Some (Halted, superblock_lines sbi_small, dev_bitmaps 7 3)"
proof -
  let ?cfg = "\<lparr> show_inodes = True, show_blocks = False, cfg_nid = 0, cfg_dev = ''numbfs.img'' \<rparr>"
  have p: "numbfs_fsck_parse_args world [Opt_i, Opt_n 0] [''numbfs.img''] cfg_init = Inr ?cfg"
    by (simp add: numbfs_fsck_parse_args_def cfg_init_def world_defs)
  have o: "sys_open world (cfg_dev ?cfg) = None"
    and g: "numbfs_get_superblock world (dev_bitmaps 7 3) = ((0, sbi_small), dev_bitmaps 7 3)"
    by (simp_all add: world_superblock)
  have z: "show_inodes ?cfg
      \<and> zone_loop (BYTES_PER_BLOCK world) (dev_bitmaps 7 3)
          (ibitmap_start sbi_small) (inode_start sbi_small) 0 = Inr 3"
    by (simp add: world_superblock sbi_small_fields zone_inode_bitmap bits_set_unfold)
  have m: "sint (3 :: cint) \<noteq> total_inodes sbi_small - free_inodes sbi_small"
    by (simp add: sbi_small_fields)
  note t = bitmap_mismatch_halts_run [OF p o g, THEN conjunct1, THEN spec, of 3]
  have "(sint (3 :: cint) \<noteq> total_inodes sbi_small - free_inodes sbi_small \<longrightarrow>
          main world [Opt_i, Opt_n 0] [''numbfs.img''] (dev_bitmaps 7 3)
            = Some (Halted, superblock_lines sbi_small, dev_bitmaps 7 3))
      \<and> (sint (3 :: cint) = total_inodes sbi_small - free_inodes sbi_small \<longrightarrow>
          fsck_run world ?cfg (dev_bitmaps 7 3)
            = fsck_blocks_section world ?cfg sbi_small (dev_bitmaps 7 3)
                (superblock_lines sbi_small
                   @ [Out fmt_inodes_usage [Pct (sint (3 :: cint)) (total_inodes sbi_small)]]))"
    using t z by (rule mp)
  then show ?thesis
    using m by blast
qed

text \<open>
  C1 as stated fails: with the inode bitmap holding two set bits where the superblock
  counts one inode in use, a run asked for both audits and an inode is halted when fsck.c
  has printed the superblock lines. The run does not go on: the block audit, whose count
  agrees with the superblock, and the inode section do not run.
\<close>

theorem bitmap_mismatch_counterexample:
  "main world [Opt_i, Opt_b, Opt_n 0] [''numbfs.img''] (dev_bitmaps 3 3)
     = Some (Halted, superblock_lines sbi_small, dev_bitmaps 3 3)
   \<and> zone_count 64 (dev_bitmaps 3 3) 2 3 = 2
   \<and> total_inodes sbi_small - free_inodes sbi_small = 1
   \<and> zone_ok 64 (dev_bitmaps 3 3) 4 5 (data_blocks sbi_small) (free_blocks sbi_small)"
proof -
  let ?cfg = "\<lparr> show_inodes = True, show_blocks = True, cfg_nid = 0, cfg_dev = ''numbfs.img'' \<rparr>"
  let ?d = "dev_bitmaps 3 3"
  have z: "zone_loop 64 ?d 2 3 0 = Inr 2"
    by (simp add: zone_inode_bitmap bits_set_unfold)
  have m: "sint (2 :: cint) \<noteq> 8 - 7"
    by simp
  have "fsck_inodes_section world ?cfg sbi_small ?d (superblock_lines sbi_small)
      = Some (Halted, superblock_lines sbi_small, ?d)"
    by (simp add: fsck_inodes_section_def world_superblock sbi_small_fields
        fsck_zone_mismatch [OF z m])
  then have "fsck_run world ?cfg ?d = Some (Halted, superblock_lines sbi_small, ?d)"
    by (simp add: fsck_run_def world_superblock)
  then have r: "main world [Opt_i, Opt_b, Opt_n 0] [''numbfs.img''] ?d
      = Some (Halted, superblock_lines sbi_small, ?d)"
    by (simp add: main_def numbfs_fsck_def world_parse)
  have c: "zone_count 64 ?d 2 3 = 2"
    by (simp add: zone_count_def z)
  have k: "zone_ok 64 ?d 4 5 (data_blocks sbi_small) (free_blocks sbi_small)"
    by (simp add: zone_ok_def zone_block_bitmap bits_set_unfold sbi_small_fields)
  from r c k show ?thesis
    by (simp add: sbi_small_fields)
qed

end
